theory Spec2Isabelle
  imports Complex_Main
begin

section \<open>Rendering numbers in template literals\<close>

text \<open>
  The workflow and the activities build strings with template literals such as
  \<^verbatim>\<open>`${args.deliveryId}-${notificationSequence}`\<close>. For an integer-valued number
  JavaScript inserts its decimal digits, with a leading minus sign when it is negative
  (numbers of magnitude \<open>10^21\<close> and more, which print in exponent form, are outside
  this model, as are \<open>NaN\<close> and the infinities).
\<close>

definition digit_char :: "nat \<Rightarrow> char" where
  "digit_char n = ''0123456789'' ! n"

fun string_of_nat :: "nat \<Rightarrow> string" where
  "string_of_nat n =
     (if n < 10 then [digit_char n]
      else string_of_nat (n div 10) @ [digit_char (n mod 10)])"

declare string_of_nat.simps [simp del]

definition string_of_int :: "int \<Rightarrow> string" where
  "string_of_int i = (if i < 0 then CHR ''-'' # string_of_nat (nat (- i)) else string_of_nat (nat i))"

section \<open>The monitoring workflow\<close>

text \<open>
  \<^verbatim>\<open>monitorDeliveryWorkflow\<close> and its signals: lines 60 to 152 of
  \<^verbatim>\<open>src/worker/src/cli/start-workflow.ts\<close>, whose line numbers are the ones cited below.
\<close>

subsection \<open>Data\<close>

text \<open>\<^verbatim>\<open>interface MonitorArgs\<close>. The two numeric fields are integers here.\<close>

record MonitorArgs =
  deliveryId :: string
  origin :: string
  destination :: string
  recipientEmail :: string
  thresholdMinutes :: int
  notifyDeltaMinutes :: int

text \<open>The five \<^verbatim>\<open>let\<close> variables of \<^verbatim>\<open>monitorDeliveryWorkflow\<close>, which the signal
  handlers and the loop share.\<close>

record MonitorState =
  highestNotifiedDelayMinutes :: int
  notificationSequence :: nat
  hasNotifiedOverThreshold :: bool
  snoozeSleepMs :: "int option"
  shouldCheckNow :: bool

definition initial_state :: MonitorState where
  "initial_state =
     \<lparr>highestNotifiedDelayMinutes = 0, notificationSequence = 0,
      hasNotifiedOverThreshold = False, snoozeSleepMs = None, shouldCheckNow = False\<rparr>"

text \<open>What the three proxied activities resolve with, and the argument of
  \<^verbatim>\<open>generateDelayMessage\<close>.\<close>

record Traffic =
  plannedSeconds :: int
  inTrafficSeconds :: int
  delayMinutes :: int

record DelayContext =
  ctx_origin :: string
  ctx_destination :: string
  ctx_delayMinutes :: int

text \<open>A rejected promise or a thrown exception is a value of this type.\<close>

datatype error = Error string | TypeError string | ActivityFailure string

subsection \<open>Signals\<close>

datatype signal = Snooze real | RouteRestarted | CheckNow

definition snooze_handler :: "real \<Rightarrow> MonitorState \<Rightarrow> MonitorState" where
  "snooze_handler minutes s =
     (let ms = max 0 (\<lfloor>minutes\<rfloor> * 60000) in s\<lparr>snoozeSleepMs := Some ms\<rparr>)"

definition routeRestarted_handler :: "MonitorState \<Rightarrow> MonitorState" where
  "routeRestarted_handler s = s\<lparr>highestNotifiedDelayMinutes := 0\<rparr>"

definition checkNow_handler :: "MonitorState \<Rightarrow> MonitorState" where
  "checkNow_handler s = s\<lparr>shouldCheckNow := True\<rparr>"

fun handle_signal :: "signal \<Rightarrow> MonitorState \<Rightarrow> MonitorState" where
  "handle_signal (Snooze minutes) s = snooze_handler minutes s"
| "handle_signal RouteRestarted s = routeRestarted_handler s"
| "handle_signal CheckNow s = checkNow_handler s"

subsection \<open>Suspension points\<close>

text \<open>
  The workflow is one thread of control. It gives up control only at an \<^verbatim>\<open>await\<close>:
  a \<^verbatim>\<open>wf.sleep\<close> or an activity call. The handlers of the signals that arrive while
  it is suspended run to completion, in arrival order, and change nothing but the
  variables. The awaited promise is not theirs to settle: a \<^verbatim>\<open>wf.sleep\<close> resolves
  when its timer fires and an activity call when the activity is done, and the
  workflow has neither a \<^verbatim>\<open>wf.condition\<close> nor a cancellation scope through which a
  handler could end either sooner. What the run does is recorded as a list of events.
\<close>

datatype kind = Escalation | AllClear

datatype event =
    Waited int
  | Handled signal
  | Fetched string string int
  | Sent kind string string string string

text \<open>
  \<open>Waited d\<close>: \<open>d\<close> milliseconds pass inside a \<^verbatim>\<open>wf.sleep\<close>;
  \<open>Handled g\<close>: the handler of \<open>g\<close> has run;
  \<open>Fetched o d m\<close>: \<^verbatim>\<open>fetchTrafficConditions(o, d)\<close> resolved with \<open>delayMinutes = m\<close>;
  \<open>Sent k to subject body key\<close>: \<^verbatim>\<open>sendNotificationEmail(to, subject, body, key)\<close>
  resolved, \<open>k\<close> telling the call site (line 125 or line 136).
\<close>

definition after_signals :: "signal list \<Rightarrow> MonitorState \<Rightarrow> MonitorState" where
  "after_signals gs s = foldl (\<lambda>s g. handle_signal g s) s gs"

text \<open>Awaiting an activity during which the signals \<open>gs\<close> arrive.\<close>

definition await_activity :: "signal list \<Rightarrow> MonitorState \<Rightarrow> MonitorState \<times> event list" where
  "await_activity gs s = (after_signals gs s, map Handled gs)"

text \<open>
  \<^verbatim>\<open>await wf.sleep(ms)\<close>. Each signal comes with the time that passed since the previous
  event of this sleep; the timer fires when \<open>ms\<close> milliseconds have passed in total, and
  a signal that would arrive later than that belongs to a later suspension point.
\<close>

fun sleep :: "int \<Rightarrow> (int \<times> signal) list \<Rightarrow> MonitorState \<Rightarrow> MonitorState \<times> event list" where
  "sleep ms [] s = (s, [Waited ms])"
| "sleep ms ((d, g) # rest) s =
     (if 0 \<le> d \<and> d \<le> ms then
        (case sleep (ms - d) rest (handle_signal g s) of
           (s', ev) \<Rightarrow> (s', Waited d # Handled g # ev))
      else (s, [Waited ms]))"

text \<open>
  One turn of the loop meets the environment at its awaits: the outcome of each activity
  call, and the signals that arrive during each await.
\<close>

record Host =
  act_fetchTrafficConditions :: "string \<Rightarrow> string \<Rightarrow> error + Traffic"
  act_generateDelayMessage :: "DelayContext \<Rightarrow> error + string"
  act_sendNotificationEmail :: "string \<Rightarrow> string \<Rightarrow> string \<Rightarrow> string \<Rightarrow> error + unit"
  sig_snooze_sleep :: "(int \<times> signal) list"
  sig_fetch :: "signal list"
  sig_generate :: "signal list"
  sig_send_escalation :: "signal list"
  sig_send_clear :: "signal list"
  sig_base_sleep :: "(int \<times> signal) list"

subsection \<open>The activity proxy\<close>






subsection \<open>The loop body\<close>

text \<open>
  Every piece returns the error that ended it, if any, the variables as they are at
  that moment, and the events it produced. There is no \<^verbatim>\<open>try\<close> in the workflow, so
  an await that rejects ends the piece, and every piece around it, with that error.
\<close>

type_synonym result = "error option \<times> MonitorState \<times> event list"

text \<open>Lines 110 to 115.\<close>

definition snooze_wait :: "Host \<Rightarrow> MonitorState \<Rightarrow> MonitorState \<times> event list" where
  "snooze_wait h s =
     (case snoozeSleepMs s of
        None \<Rightarrow> (s, [])
      | Some ms \<Rightarrow>
          if \<not> shouldCheckNow s
          then sleep ms (sig_snooze_sleep h) (s\<lparr>snoozeSleepMs := None\<rparr>)
          else (s, []))"

text \<open>Lines 119 to 128.\<close>

definition escalate_step :: "MonitorArgs \<Rightarrow> Host \<Rightarrow> int \<Rightarrow> MonitorState \<Rightarrow> result" where
  "escalate_step a h delay s =
     (if delay \<ge> thresholdMinutes a \<and>
         delay \<ge> highestNotifiedDelayMinutes s + notifyDeltaMinutes a
      then
        (case await_activity (sig_generate h) s of
           (s1, ev1) \<Rightarrow>
             (case act_generateDelayMessage h
                     \<lparr>ctx_origin = origin a, ctx_destination = destination a,
                      ctx_delayMinutes = delay\<rparr> of
                Inl e \<Rightarrow> (Some e, s1, ev1)
              | Inr body \<Rightarrow>
                  (let subject = ''Delay update for delivery '' @ deliveryId a;
                       s2 = s1\<lparr>notificationSequence := notificationSequence s1 + 1\<rparr>;
                       idempotencyKey =
                         deliveryId a @ ''-'' @ string_of_nat (notificationSequence s2)
                   in case await_activity (sig_send_escalation h) s2 of
                        (s3, ev3) \<Rightarrow>
                          (case act_sendNotificationEmail h (recipientEmail a) subject body
                                  idempotencyKey of
                             Inl e \<Rightarrow> (Some e, s3, ev1 @ ev3)
                           | Inr _ \<Rightarrow>
                               (None,
                                s3\<lparr>highestNotifiedDelayMinutes := delay,
                                   hasNotifiedOverThreshold := True\<rparr>,
                                ev1 @ ev3 @
                                [Sent Escalation (recipientEmail a) subject body
                                   idempotencyKey])))))
      else (None, s, []))"

text \<open>Lines 130 to 140.\<close>

definition clear_step :: "MonitorArgs \<Rightarrow> Host \<Rightarrow> int \<Rightarrow> MonitorState \<Rightarrow> result" where
  "clear_step a h delay s =
     (if hasNotifiedOverThreshold s \<and> delay < thresholdMinutes a
      then
        (let body = ''Good news! Traffic has improved and your delivery from '' @ origin a
                    @ '' to '' @ destination a
                    @ '' is back on track. We'll keep monitoring.'';
             subject = ''Update for delivery '' @ deliveryId a @ '': back on track'';
             s1 = s\<lparr>notificationSequence := notificationSequence s + 1\<rparr>;
             idempotencyKey = deliveryId a @ ''-'' @ string_of_nat (notificationSequence s1)
         in case await_activity (sig_send_clear h) s1 of
              (s2, ev2) \<Rightarrow>
                (case act_sendNotificationEmail h (recipientEmail a) subject body
                        idempotencyKey of
                   Inl e \<Rightarrow> (Some e, s2, ev2)
                 | Inr _ \<Rightarrow>
                     (None,
                      s2\<lparr>hasNotifiedOverThreshold := False,
                         highestNotifiedDelayMinutes := 0\<rparr>,
                      ev2 @ [Sent AllClear (recipientEmail a) subject body idempotencyKey])))
      else (None, s, []))"

text \<open>Lines 117 to 140: the fetch and the two notification blocks.\<close>

definition evaluation :: "MonitorArgs \<Rightarrow> Host \<Rightarrow> MonitorState \<Rightarrow> result" where
  "evaluation a h s =
     (case await_activity (sig_fetch h) s of
        (s1, ev1) \<Rightarrow>
          (case act_fetchTrafficConditions h (origin a) (destination a) of
             Inl e \<Rightarrow> (Some e, s1, ev1)
           | Inr traffic \<Rightarrow>
               (let delay = delayMinutes traffic;
                    ev2 = ev1 @ [Fetched (origin a) (destination a) delay]
                in case escalate_step a h delay s1 of
                     (Some e, s3, ev3) \<Rightarrow> (Some e, s3, ev2 @ ev3)
                   | (None, s3, ev3) \<Rightarrow>
                       (case clear_step a h delay s3 of
                          (r, s4, ev4) \<Rightarrow> (r, s4, ev2 @ ev3 @ ev4)))))"

definition baseMs :: int where
  "baseMs = 30 * 60 * 1000"

text \<open>Lines 110 to 150: one turn of \<^verbatim>\<open>while (true)\<close>.\<close>

definition cycle :: "MonitorArgs \<Rightarrow> Host \<Rightarrow> MonitorState \<Rightarrow> result" where
  "cycle a h s =
     (case snooze_wait h s of
        (s1, ev1) \<Rightarrow>
          (case evaluation a h s1 of
             (Some e, s2, ev2) \<Rightarrow> (Some e, s2, ev1 @ ev2)
           | (None, s2, ev2) \<Rightarrow>
               (let s3 = (if shouldCheckNow s2 then s2\<lparr>shouldCheckNow := False\<rparr> else s2)
                in case sleep baseMs (sig_base_sleep h) s3 of
                     (s4, ev4) \<Rightarrow> (None, s4, ev1 @ ev2 @ ev4))))"

text \<open>
  The loop has no exit of its own: it runs until an await rejects. \<open>run a hs s\<close> is
  what it does from the variables \<open>s\<close> while the environment behaves as \<open>hs\<close> says,
  one \<open>Host\<close> for each turn: it stops with the error of the first turn that fails, and
  otherwise gives the variables at the top of the loop after the last turn listed.
\<close>

fun run :: "MonitorArgs \<Rightarrow> Host list \<Rightarrow> MonitorState \<Rightarrow> result" where
  "run a [] s = (None, s, [])"
| "run a (h # hs) s =
     (case cycle a h s of
        (Some e, s', ev) \<Rightarrow> (Some e, s', ev)
      | (None, s', ev) \<Rightarrow>
          (case run a hs s' of (r, s'', ev') \<Rightarrow> (r, s'', ev @ ev')))"

definition monitorDeliveryWorkflow :: "MonitorArgs \<Rightarrow> Host list \<Rightarrow> result" where
  "monitorDeliveryWorkflow a hs = run a hs initial_state"

text \<open>The notifications among the events, and what they carry.\<close>

fun sent_kinds :: "event list \<Rightarrow> kind list" where
  "sent_kinds [] = []"
| "sent_kinds (Sent k to subject body key # ev) = k # sent_kinds ev"
| "sent_kinds (_ # ev) = sent_kinds ev"

fun sent_keys :: "event list \<Rightarrow> string list" where
  "sent_keys [] = []"
| "sent_keys (Sent k to subject body key # ev) = key # sent_keys ev"
| "sent_keys (_ # ev) = sent_keys ev"

section \<open>The message activity\<close>

text \<open>
  \<^verbatim>\<open>generateDelayMessage\<close>: lines 129 to 177 of \<^verbatim>\<open>src/worker/src/activities/index.ts\<close>.
\<close>

subsection \<open>What the provider can answer\<close>

text \<open>
  A parsed JSON document. \<^verbatim>\<open>JSON.parse\<close> keeps the last of several equal keys of an
  object, so a key is looked up from the end of the member list.
\<close>

datatype json =
    JNull
  | JBool bool
  | JNumber int
  | JString string
  | JArray "json list"
  | JObject "(string \<times> json) list"

text \<open>
  The values the chain \<^verbatim>\<open>json?.choices?.[0]?.message?.content\<close> passes along are
  parsed JSON or \<^verbatim>\<open>undefined\<close>, which is \<open>None\<close> here. \<open>property k v\<close> is \<^verbatim>\<open>v.k\<close> for one
  of the three names read (no array, string, number or boolean has a property of these
  names); \<open>index0 v\<close> is \<^verbatim>\<open>v[0]\<close>.
\<close>

fun property :: "string \<Rightarrow> json \<Rightarrow> json option" where
  "property k (JObject kvs) = map_of (rev kvs) k"
| "property k _ = None"

fun index0 :: "json \<Rightarrow> json option" where
  "index0 (JArray xs) = (case xs of [] \<Rightarrow> None | x # _ \<Rightarrow> Some x)"
| "index0 (JObject kvs) = map_of (rev kvs) ''0''"
| "index0 (JString cs) = (case cs of [] \<Rightarrow> None | c # _ \<Rightarrow> Some (JString [c]))"
| "index0 _ = None"

text \<open>\<^verbatim>\<open>v?.f\<close>: \<^verbatim>\<open>undefined\<close> when \<open>v\<close> is \<^verbatim>\<open>undefined\<close> or \<^verbatim>\<open>null\<close>.\<close>

fun optional_chain :: "json option \<Rightarrow> (json \<Rightarrow> json option) \<Rightarrow> json option" where
  "optional_chain None f = None"
| "optional_chain (Some JNull) f = None"
| "optional_chain (Some v) f = f v"

text \<open>
  \<^verbatim>\<open>String.prototype.trim\<close> strips the white space and the line terminators of
  ECMAScript from both ends of a string: the code points U+0009 to U+000D, U+0020,
  U+00A0, U+1680, U+2000 to U+200A, U+2028, U+2029, U+202F, U+205F, U+3000 and U+FEFF.
  A string is the list of its bytes in UTF-8 here, so each of them is the byte sequence
  that encodes it, and \<open>strip_start ws\<close> removes from the front of a string, as long as
  it can, one of the sequences in \<open>ws\<close>.
\<close>

definition js_whitespace :: "string list" where
  "js_whitespace =
     [[CHR 0x09], [CHR 0x0A], [CHR 0x0B], [CHR 0x0C], [CHR 0x0D], [CHR 0x20],
      [CHR 0xC2, CHR 0xA0],
      [CHR 0xE1, CHR 0x9A, CHR 0x80],
      [CHR 0xE2, CHR 0x80, CHR 0x80], [CHR 0xE2, CHR 0x80, CHR 0x81],
      [CHR 0xE2, CHR 0x80, CHR 0x82], [CHR 0xE2, CHR 0x80, CHR 0x83],
      [CHR 0xE2, CHR 0x80, CHR 0x84], [CHR 0xE2, CHR 0x80, CHR 0x85],
      [CHR 0xE2, CHR 0x80, CHR 0x86], [CHR 0xE2, CHR 0x80, CHR 0x87],
      [CHR 0xE2, CHR 0x80, CHR 0x88], [CHR 0xE2, CHR 0x80, CHR 0x89],
      [CHR 0xE2, CHR 0x80, CHR 0x8A],
      [CHR 0xE2, CHR 0x80, CHR 0xA8], [CHR 0xE2, CHR 0x80, CHR 0xA9],
      [CHR 0xE2, CHR 0x80, CHR 0xAF],
      [CHR 0xE2, CHR 0x81, CHR 0x9F],
      [CHR 0xE3, CHR 0x80, CHR 0x80],
      [CHR 0xEF, CHR 0xBB, CHR 0xBF]]"

function strip_start :: "string list \<Rightarrow> string \<Rightarrow> string" where
  "strip_start ws s =
     (case find (\<lambda>w. w \<noteq> [] \<and> take (length w) s = w) ws of
        None \<Rightarrow> s
      | Some w \<Rightarrow> strip_start ws (drop (length w) s))"
  by pat_completeness auto
termination
proof (relation "measure (\<lambda>(ws, s). length s)")
  show "wf (measure (\<lambda>(ws, s). length s))" by simp
next
  fix ws :: "string list" and s w :: string
  assume "find (\<lambda>w. w \<noteq> [] \<and> take (length w) s = w) ws = Some w"
  then have w: "w \<noteq> []" "take (length w) s = w"
    by (auto simp: find_Some_iff)
  from w(2) have "length (take (length w) s) = length w" by simp
  then have "length w \<le> length s" by simp
  with w(1) show "((ws, drop (length w) s), (ws, s)) \<in> measure (\<lambda>(ws, s). length s)"
    by (cases w) auto
qed

declare strip_start.simps [simp del]

definition trim :: "string \<Rightarrow> string" where
  "trim s = rev (strip_start (map rev js_whitespace) (rev (strip_start js_whitespace s)))"

text \<open>
  \<^verbatim>\<open>json?.choices?.[0]?.message?.content?.trim()\<close>. The last link calls \<^verbatim>\<open>trim\<close> on
  whatever \<^verbatim>\<open>content\<close> is unless it is \<^verbatim>\<open>null\<close> or \<^verbatim>\<open>undefined\<close>: on anything but
  a string that is a call of \<^verbatim>\<open>undefined\<close>, a \<^verbatim>\<open>TypeError\<close>.
\<close>

definition completion_text :: "json \<Rightarrow> error + string option" where
  "completion_text j =
     (case optional_chain
             (optional_chain (optional_chain (optional_chain (Some j) (property ''choices''))
                index0) (property ''message'')) (property ''content'') of
        None \<Rightarrow> Inr None
      | Some JNull \<Rightarrow> Inr None
      | Some (JString cs) \<Rightarrow> Inr (Some (trim cs))
      | Some _ \<Rightarrow> Inl (TypeError ''trim is not a function''))"

text \<open>
  The response of \<^verbatim>\<open>fetch\<close> as the activity reads it: \<^verbatim>\<open>res.ok\<close>, \<^verbatim>\<open>res.status\<close>
  and what \<^verbatim>\<open>res.json()\<close> resolves with or rejects with.
\<close>

record Response =
  res_ok :: bool
  res_status :: nat
  res_json :: "error + json"

text \<open>The three variables of \<^verbatim>\<open>process.env\<close> that the activity reads.\<close>

record Env =
  USE_MOCK_AI :: "string option"
  OPENAI_API_KEY :: "string option"
  OPENAI_MODEL :: "string option"

subsection \<open>generateDelayMessage\<close>

definition fallback :: "DelayContext \<Rightarrow> string" where
  "fallback context =
     ''Heads up! Your delivery from '' @ ctx_origin context @ '' to ''
     @ ctx_destination context @ '' is delayed by about ''
     @ string_of_int (ctx_delayMinutes context)
     @ '' minutes due to traffic. We'll keep you posted.''"

text \<open>
  Lines 143 to 170, the body of the \<^verbatim>\<open>try\<close>: \<open>Inl\<close> is what it throws. The second
  argument is the outcome of the \<^verbatim>\<open>fetch\<close> call, \<open>Inl\<close> when the call itself rejects.
\<close>

definition request_completion :: "error + Response \<Rightarrow> error + string" where
  "request_completion fetched =
     (case fetched of
        Inl e \<Rightarrow> Inl e
      | Inr res \<Rightarrow>
          if \<not> res_ok res
          then Inl (Error (''OpenAI HTTP '' @ string_of_nat (res_status res)))
          else
            (case res_json res of
               Inl e \<Rightarrow> Inl e
             | Inr j \<Rightarrow>
                 (case completion_text j of
                    Inl e \<Rightarrow> Inl e
                  | Inr None \<Rightarrow> Inl (Error ''OpenAI empty response'')
                  | Inr (Some text) \<Rightarrow>
                      if text = [] then Inl (Error ''OpenAI empty response'')
                      else Inr text)))"

text \<open>\<^verbatim>\<open>!apiKey\<close>: the variable is unset or empty.\<close>

definition no_key :: "string option \<Rightarrow> bool" where
  "no_key k = (case k of None \<Rightarrow> True | Some v \<Rightarrow> v = [])"

definition generateDelayMessage ::
  "Env \<Rightarrow> (error + Response) \<Rightarrow> DelayContext \<Rightarrow> error + string" where
  "generateDelayMessage env fetched context =
     (let useMock = ((case USE_MOCK_AI env of None \<Rightarrow> ''false'' | Some v \<Rightarrow> v) = ''true'');
          apiKey = OPENAI_API_KEY env
      in if useMock \<or> no_key apiKey then Inr (fallback context)
         else
           (case request_completion fetched of
              Inr text \<Rightarrow> Inr text
            | Inl err \<Rightarrow> Inr (fallback context)))"

section \<open>Environments used in the examples\<close>

text \<open>
  A turn in which no signal arrives, the traffic activity reports the delay \<open>d\<close>, the
  message activity runs in mock mode and the mail activity succeeds.
\<close>

definition mock_env :: Env where
  "mock_env = \<lparr>USE_MOCK_AI = Some ''true'', OPENAI_API_KEY = None, OPENAI_MODEL = None\<rparr>"

definition quiet_host :: "int \<Rightarrow> Host" where
  "quiet_host d =
     \<lparr>act_fetchTrafficConditions =
        (\<lambda>orig dest. Inr \<lparr>plannedSeconds = 3600, inTrafficSeconds = 3600 + 60 * d,
                            delayMinutes = d\<rparr>),
      act_generateDelayMessage =
        generateDelayMessage mock_env (Inl (Error ''not called'')),
      act_sendNotificationEmail = (\<lambda>to subject body key. Inr ()),
      sig_snooze_sleep = [], sig_fetch = [], sig_generate = [],
      sig_send_escalation = [], sig_send_clear = [], sig_base_sleep = []\<rparr>"

definition demo_args :: MonitorArgs where
  "demo_args =
     \<lparr>deliveryId = ''demo'', origin = ''San Francisco, CA'', destination = ''Oakland, CA'',
      recipientEmail = ''you@example.com'', thresholdMinutes = 30, notifyDeltaMinutes = 10\<rparr>"

text \<open>A turn in which the mail activity fails for good.\<close>

definition failing_send_host :: "int \<Rightarrow> Host" where
  "failing_send_host d =
     (quiet_host d)\<lparr>act_sendNotificationEmail :=
        (\<lambda>to subject body key. Inl (ActivityFailure ''SendGrid HTTP 500''))\<rparr>"


text \<open>
  Turns with the delay \<open>d\<close> in which \<^verbatim>\<open>routeRestarted()\<close> arrives: during the fetch,
  during the message activity of an escalation, during the dispatch of an all-clear,
  and one minute into the base sleep.
\<close>

definition restart_in_fetch_host :: "int \<Rightarrow> Host" where
  "restart_in_fetch_host d = (quiet_host d)\<lparr>sig_fetch := [RouteRestarted]\<rparr>"

definition restart_in_flight_host :: "int \<Rightarrow> Host" where
  "restart_in_flight_host d = (quiet_host d)\<lparr>sig_generate := [RouteRestarted]\<rparr>"

definition restart_in_sleep_host :: "int \<Rightarrow> Host" where
  "restart_in_sleep_host d = (quiet_host d)\<lparr>sig_base_sleep := [(60000, RouteRestarted)]\<rparr>"

definition restart_in_clear_host :: "int \<Rightarrow> Host" where
  "restart_in_clear_host d = (quiet_host d)\<lparr>sig_send_clear := [RouteRestarted]\<rparr>"

text \<open>The variables after one turn that escalated at a delay of 35 minutes.\<close>

definition notified_state :: MonitorState where
  "notified_state = fst (snd (monitorDeliveryWorkflow demo_args [quiet_host 35]))"

text \<open>
  A turn with no delay in whose base sleep, one minute after its start, \<^verbatim>\<open>snooze(5)\<close>
  and then at once \<^verbatim>\<open>checkNow()\<close> arrive.
\<close>

definition check_now_host :: Host where
  "check_now_host = (quiet_host 0)\<lparr>sig_base_sleep := [(60000, Snooze 5), (0, CheckNow)]\<rparr>"

text \<open>A configuration whose delta is larger than its threshold.\<close>

definition wide_delta_args :: MonitorArgs where
  "wide_delta_args = demo_args\<lparr>notifyDeltaMinutes := 40\<rparr>"

text \<open>
  A worker with an API key and mock mode off, a context, and two answers of the
  provider: a completion with the given \<^verbatim>\<open>content\<close>, and an HTTP error.
\<close>

definition live_env :: Env where
  "live_env = \<lparr>USE_MOCK_AI = None, OPENAI_API_KEY = Some ''sk-test'', OPENAI_MODEL = None\<rparr>"

definition demo_context :: DelayContext where
  "demo_context =
     \<lparr>ctx_origin = ''San Francisco, CA'', ctx_destination = ''Oakland, CA'',
      ctx_delayMinutes = 35\<rparr>"

definition completion_of :: "json \<Rightarrow> Response" where
  "completion_of content =
     \<lparr>res_ok = True, res_status = 200,
      res_json = Inr (JObject [(''choices'',
                   JArray [JObject [(''message'', JObject [(''content'', content)])]])])\<rparr>"

definition http_500 :: Response where
  "http_500 = \<lparr>res_ok = False, res_status = 500, res_json = Inr JNull\<rparr>"

section \<open>Vocabulary of the properties\<close>

text \<open>
  \<open>untouched s s' ev\<close>: between \<open>s\<close> and \<open>s'\<close> the loop has not written the two
  watermark variables. The flag is the same, and the watermark is the same unless the
  handler of a \<^verbatim>\<open>routeRestarted\<close> signal, recorded in \<open>ev\<close>, has set it to 0.
\<close>

definition untouched :: "MonitorState \<Rightarrow> MonitorState \<Rightarrow> event list \<Rightarrow> bool" where
  "untouched s s' ev =
     (hasNotifiedOverThreshold s' = hasNotifiedOverThreshold s \<and>
      (highestNotifiedDelayMinutes s' = highestNotifiedDelayMinutes s \<or>
       (highestNotifiedDelayMinutes s' = 0 \<and> Handled RouteRestarted \<in> set ev)))"

text \<open>
  \<open>clear_ok f ks\<close>: in the sequence \<open>ks\<close> of notifications, sent from a state whose flag
  is \<open>f\<close>, every all-clear comes while the flag is set; \<open>flag_after f ks\<close> is the flag
  after them.
\<close>

fun flag_after :: "bool \<Rightarrow> kind list \<Rightarrow> bool" where
  "flag_after f [] = f"
| "flag_after f (Escalation # ks) = flag_after True ks"
| "flag_after f (AllClear # ks) = flag_after False ks"

fun clear_ok :: "bool \<Rightarrow> kind list \<Rightarrow> bool" where
  "clear_ok f [] = True"
| "clear_ok f (Escalation # ks) = clear_ok True ks"
| "clear_ok f (AllClear # ks) = (f \<and> clear_ok False ks)"

text \<open>
  The watermark is 0 or a delay that passed the gate of line 120: one that is at least
  the threshold and, the delta being non-negative, at least the delta.
\<close>

definition watermark_ok :: "MonitorArgs \<Rightarrow> MonitorState \<Rightarrow> bool" where
  "watermark_ok a s =
     (highestNotifiedDelayMinutes s = 0 \<or>
      (thresholdMinutes a \<le> highestNotifiedDelayMinutes s \<and>
       (0 \<le> notifyDeltaMinutes a \<longrightarrow> notifyDeltaMinutes a \<le> highestNotifiedDelayMinutes s)))"

text \<open>
  Lines 110 to 145: a turn up to its base sleep. \<open>cycle\<close> is this, followed by the
  sleep of line 150.
\<close>

definition turn_until_sleep :: "MonitorArgs \<Rightarrow> Host \<Rightarrow> MonitorState \<Rightarrow> result" where
  "turn_until_sleep a h s =
     (case snooze_wait h s of
        (s1, ev1) \<Rightarrow>
          (case evaluation a h s1 of
             (Some e, s2, ev2) \<Rightarrow> (Some e, s2, ev1 @ ev2)
           | (None, s2, ev2) \<Rightarrow>
               (None, (if shouldCheckNow s2 then s2\<lparr>shouldCheckNow := False\<rparr> else s2),
                ev1 @ ev2)))"

section \<open>Decimal rendering is injective\<close>

lemma digit_char_inj:
  assumes "m < 10" "n < 10" "digit_char m = digit_char n"
  shows "m = n"
proof -
  have "distinct ''0123456789''" by simp
  moreover have "m < length ''0123456789''" "n < length ''0123456789''"
    using assms by simp_all
  ultimately show ?thesis
    using assms(3) unfolding digit_char_def by (simp only: nth_eq_iff_index_eq)
qed

lemma string_of_nat_small: "n < 10 \<Longrightarrow> string_of_nat n = [digit_char n]"
  by (simp add: string_of_nat.simps)

lemma string_of_nat_large:
  "\<not> n < 10 \<Longrightarrow> string_of_nat n = string_of_nat (n div 10) @ [digit_char (n mod 10)]"
  by (subst string_of_nat.simps) simp

lemma string_of_nat_nonempty: "string_of_nat n \<noteq> []"
  by (cases "n < 10") (simp_all add: string_of_nat_small string_of_nat_large)

lemma string_of_nat_inj: "string_of_nat m = string_of_nat n \<Longrightarrow> m = n"
proof (induction m arbitrary: n rule: string_of_nat.induct)
  case (1 m)
  show ?case
  proof (cases "m < 10")
    case True
    show ?thesis
    proof (cases "n < 10")
      case n: True
      with True "1.prems" show ?thesis
        by (simp add: string_of_nat_small digit_char_inj)
    next
      case False
      with True "1.prems" string_of_nat_nonempty [of "n div 10"] show ?thesis
        by (simp add: string_of_nat_small string_of_nat_large)
    qed
  next
    case False
    show ?thesis
    proof (cases "n < 10")
      case True
      with False "1.prems" string_of_nat_nonempty [of "m div 10"] show ?thesis
        by (simp add: string_of_nat_small string_of_nat_large)
    next
      case n: False
      with False "1.prems"
      have eq: "string_of_nat (m div 10) = string_of_nat (n div 10)"
        "digit_char (m mod 10) = digit_char (n mod 10)"
        by (simp_all add: string_of_nat_large)
      from "1.IH" [OF False eq(1)] have "m div 10 = n div 10" .
      moreover from eq(2) have "m mod 10 = n mod 10"
        by (intro digit_char_inj) simp_all
      ultimately show ?thesis by (metis div_mult_mod_eq)
    qed
  qed
qed

section \<open>Signals and sleeps leave the notification state alone\<close>

text \<open>
  No handler writes \<open>notificationSequence\<close> or \<open>hasNotifiedOverThreshold\<close>, and the
  only handler that writes \<open>highestNotifiedDelayMinutes\<close> sets it to 0.
\<close>

lemma handle_signal_seq [simp]:
  "notificationSequence (handle_signal g s) = notificationSequence s"
  by (cases g) (simp_all add: snooze_handler_def routeRestarted_handler_def checkNow_handler_def)

lemma handle_signal_flag [simp]:
  "hasNotifiedOverThreshold (handle_signal g s) = hasNotifiedOverThreshold s"
  by (cases g) (simp_all add: snooze_handler_def routeRestarted_handler_def checkNow_handler_def)

lemma handle_signal_highest:
  "highestNotifiedDelayMinutes (handle_signal g s) =
     (if g = RouteRestarted then 0 else highestNotifiedDelayMinutes s)"
  by (cases g) (simp_all add: snooze_handler_def routeRestarted_handler_def checkNow_handler_def)

lemma after_signals_Cons:
  "after_signals (g # gs) s = after_signals gs (handle_signal g s)"
  by (simp add: after_signals_def)

lemma after_signals_Nil [simp]: "after_signals [] s = s"
  by (simp add: after_signals_def)

lemma after_signals_seq [simp]:
  "notificationSequence (after_signals gs s) = notificationSequence s"
  by (induction gs arbitrary: s) (simp_all add: after_signals_Cons)

lemma after_signals_flag [simp]:
  "hasNotifiedOverThreshold (after_signals gs s) = hasNotifiedOverThreshold s"
  by (induction gs arbitrary: s) (simp_all add: after_signals_Cons)

lemma after_signals_highest:
  "highestNotifiedDelayMinutes (after_signals gs s) =
     (if RouteRestarted \<in> set gs then 0 else highestNotifiedDelayMinutes s)"
  by (induction gs arbitrary: s) (auto simp: after_signals_Cons handle_signal_highest routeRestarted_handler_def)

lemma sent_kinds_append [simp]: "sent_kinds (xs @ ys) = sent_kinds xs @ sent_kinds ys"
  by (induction xs rule: sent_kinds.induct) simp_all

lemma sent_kinds_Handled [simp]: "sent_kinds (map Handled gs) = []"
  by (induction gs) simp_all

lemma sent_keys_append [simp]: "sent_keys (xs @ ys) = sent_keys xs @ sent_keys ys"
  by (induction xs rule: sent_keys.induct) simp_all

lemma sent_keys_Handled [simp]: "sent_keys (map Handled gs) = []"
  by (induction gs) simp_all

lemma sleep_seq [simp]:
  "notificationSequence (fst (sleep ms tg s)) = notificationSequence s"
  by (induction ms tg s rule: sleep.induct) (auto split: prod.splits)

lemma sleep_flag [simp]:
  "hasNotifiedOverThreshold (fst (sleep ms tg s)) = hasNotifiedOverThreshold s"
  by (induction ms tg s rule: sleep.induct) (auto split: prod.splits)

lemma sleep_highest:
  "highestNotifiedDelayMinutes (fst (sleep ms tg s)) =
     (if Handled RouteRestarted \<in> set (snd (sleep ms tg s)) then 0
      else highestNotifiedDelayMinutes s)"
  by (induction ms tg s rule: sleep.induct)
     (auto split: prod.splits simp: handle_signal_highest routeRestarted_handler_def)

lemma sleep_sent_kinds [simp]: "sent_kinds (snd (sleep ms tg s)) = []"
  by (induction ms tg s rule: sleep.induct) (auto split: prod.splits)

lemma sleep_sent_keys [simp]: "sent_keys (snd (sleep ms tg s)) = []"
  by (induction ms tg s rule: sleep.induct) (auto split: prod.splits)

lemma escalate_step_None:
  assumes "escalate_step a h d s = (None, s', ev)"
  shows "if d \<ge> thresholdMinutes a \<and> d \<ge> highestNotifiedDelayMinutes s + notifyDeltaMinutes a
         then sent_kinds ev = [Escalation] \<and> highestNotifiedDelayMinutes s' = d \<and>
              hasNotifiedOverThreshold s' \<and>
              notificationSequence s' = notificationSequence s + 1
         else s' = s \<and> ev = []"
  using assms
  by (auto simp: escalate_step_def await_activity_def Let_def split: sum.splits if_splits)

lemma clear_step_None:
  assumes "clear_step a h d s = (None, s', ev)"
  shows "if hasNotifiedOverThreshold s \<and> d < thresholdMinutes a
         then sent_kinds ev = [AllClear] \<and> highestNotifiedDelayMinutes s' = 0 \<and>
              \<not> hasNotifiedOverThreshold s' \<and>
              notificationSequence s' = notificationSequence s + 1
         else s' = s \<and> ev = []"
  using assms
  by (auto simp: clear_step_def await_activity_def Let_def split: sum.splits if_splits)

section \<open>What the pieces of a turn do\<close>

lemma Handled_in_map [simp]: "Handled g \<in> set (map Handled gs) \<longleftrightarrow> g \<in> set gs"
  by auto

lemma untouched_refl [simp]: "untouched s s ev"
  by (simp add: untouched_def)

lemma untouched_trans:
  "untouched s s1 ev1 \<Longrightarrow> untouched s1 s2 ev2 \<Longrightarrow> untouched s s2 (ev1 @ ev2)"
  by (auto simp: untouched_def)

lemma untouched_mono:
  "untouched s s' ev \<Longrightarrow> set ev \<subseteq> set ev' \<Longrightarrow> untouched s s' ev'"
  by (auto simp: untouched_def)

lemma untouched_after_signals: "untouched s (after_signals gs s) (map Handled gs)"
  by (simp add: untouched_def after_signals_highest)

lemma untouched_sleep: "untouched s (fst (sleep ms tg s)) (snd (sleep ms tg s))"
  by (simp add: untouched_def sleep_highest)

lemma untouched_snooze_wait: "untouched s (fst (snooze_wait h s)) (snd (snooze_wait h s))"
proof (cases "snoozeSleepMs s")
  case None
  then show ?thesis by (simp add: snooze_wait_def)
next
  case (Some ms)
  show ?thesis
  proof (cases "shouldCheckNow s")
    case True
    with Some show ?thesis by (simp add: snooze_wait_def)
  next
    case False
    have "untouched (s\<lparr>snoozeSleepMs := None\<rparr>)
            (fst (sleep ms (sig_snooze_sleep h) (s\<lparr>snoozeSleepMs := None\<rparr>)))
            (snd (sleep ms (sig_snooze_sleep h) (s\<lparr>snoozeSleepMs := None\<rparr>)))"
      by (rule untouched_sleep)
    with Some False show ?thesis by (simp add: snooze_wait_def untouched_def)
  qed
qed

lemma snooze_wait_seq [simp]:
  "notificationSequence (fst (snooze_wait h s)) = notificationSequence s"
  by (simp add: snooze_wait_def split: option.splits)

lemma snooze_wait_sent_kinds [simp]: "sent_kinds (snd (snooze_wait h s)) = []"
  by (simp add: snooze_wait_def split: option.splits)

lemma snooze_wait_sent_keys [simp]: "sent_keys (snd (snooze_wait h s)) = []"
  by (simp add: snooze_wait_def split: option.splits)

text \<open>A step that fails has sent nothing and has not written the watermark.\<close>

lemma escalate_step_Some:
  assumes "escalate_step a h d s = (Some e, s', ev)"
  shows "sent_kinds ev = [] \<and> sent_keys ev = [] \<and> untouched s s' ev \<and>
         notificationSequence s \<le> notificationSequence s'"
  using assms
  by (auto simp: escalate_step_def await_activity_def Let_def untouched_def
        after_signals_highest split: sum.splits if_splits)

lemma clear_step_Some:
  assumes "clear_step a h d s = (Some e, s', ev)"
  shows "sent_kinds ev = [] \<and> sent_keys ev = [] \<and> untouched s s' ev \<and>
         notificationSequence s \<le> notificationSequence s'"
  using assms
  by (auto simp: clear_step_def await_activity_def Let_def untouched_def
        after_signals_highest split: sum.splits if_splits)


lemma escalate_step_None_keys:
  assumes "escalate_step a h d s = (None, s', ev)"
  shows "if d \<ge> thresholdMinutes a \<and> d \<ge> highestNotifiedDelayMinutes s + notifyDeltaMinutes a
         then sent_keys ev = [deliveryId a @ ''-'' @ string_of_nat (notificationSequence s + 1)]
         else sent_keys ev = []"
  using assms
  by (auto simp: escalate_step_def await_activity_def Let_def split: sum.splits if_splits)

lemma clear_step_None_keys:
  assumes "clear_step a h d s = (None, s', ev)"
  shows "if hasNotifiedOverThreshold s \<and> d < thresholdMinutes a
         then sent_keys ev = [deliveryId a @ ''-'' @ string_of_nat (notificationSequence s + 1)]
         else sent_keys ev = []"
  using assms
  by (auto simp: clear_step_def await_activity_def Let_def split: sum.splits if_splits)

lemma clear_step_over:
  "thresholdMinutes a \<le> d \<Longrightarrow> clear_step a h d s = (None, s, [])"
  by (simp add: clear_step_def)

lemma evaluation_fetch_failed:
  assumes "act_fetchTrafficConditions h (origin a) (destination a) = Inl e"
  shows "evaluation a h s = (Some e, after_signals (sig_fetch h) s, map Handled (sig_fetch h))"
  using assms by (simp add: evaluation_def await_activity_def)

lemma evaluation_fetched:
  assumes "act_fetchTrafficConditions h (origin a) (destination a) = Inr t"
  shows "evaluation a h s =
     (case escalate_step a h (delayMinutes t) (after_signals (sig_fetch h) s) of
        (Some e, s3, ev3) \<Rightarrow>
          (Some e, s3,
           (map Handled (sig_fetch h) @ [Fetched (origin a) (destination a) (delayMinutes t)]) @ ev3)
      | (None, s3, ev3) \<Rightarrow>
          (case clear_step a h (delayMinutes t) s3 of
             (r, s4, ev4) \<Rightarrow>
               (r, s4,
                (map Handled (sig_fetch h) @ [Fetched (origin a) (destination a) (delayMinutes t)])
                @ ev3 @ ev4)))"
  using assms by (simp add: evaluation_def await_activity_def Let_def)

lemma evaluation_None:
  assumes "evaluation a h s = (None, s', ev)"
      and "act_fetchTrafficConditions h (origin a) (destination a) = Inr t"
  shows "if delayMinutes t \<ge> thresholdMinutes a \<and>
            delayMinutes t \<ge> highestNotifiedDelayMinutes (after_signals (sig_fetch h) s)
                               + notifyDeltaMinutes a
         then sent_kinds ev = [Escalation] \<and>
              sent_keys ev = [deliveryId a @ ''-'' @ string_of_nat (notificationSequence s + 1)] \<and>
              highestNotifiedDelayMinutes s' = delayMinutes t \<and>
              hasNotifiedOverThreshold s' \<and>
              notificationSequence s' = notificationSequence s + 1
         else if hasNotifiedOverThreshold s \<and> delayMinutes t < thresholdMinutes a
         then sent_kinds ev = [AllClear] \<and>
              sent_keys ev = [deliveryId a @ ''-'' @ string_of_nat (notificationSequence s + 1)] \<and>
              highestNotifiedDelayMinutes s' = 0 \<and>
              \<not> hasNotifiedOverThreshold s' \<and>
              notificationSequence s' = notificationSequence s + 1
         else sent_kinds ev = [] \<and> sent_keys ev = [] \<and>
              s' = after_signals (sig_fetch h) s"
proof -
  let ?d = "delayMinutes t"
  let ?s1 = "after_signals (sig_fetch h) s"
  from assms obtain s3 ev3 ev4 where esc: "escalate_step a h ?d ?s1 = (None, s3, ev3)"
    and clr: "clear_step a h ?d s3 = (None, s', ev4)"
    and ev: "sent_kinds ev = sent_kinds ev3 @ sent_kinds ev4"
            "sent_keys ev = sent_keys ev3 @ sent_keys ev4"
    by (auto simp: evaluation_fetched split: prod.splits option.splits)
  show ?thesis
  proof (cases "?d \<ge> thresholdMinutes a \<and>
                ?d \<ge> highestNotifiedDelayMinutes ?s1 + notifyDeltaMinutes a")
    case True
    with escalate_step_None [OF esc] escalate_step_None_keys [OF esc]
    have e: "sent_kinds ev3 = [Escalation]" "highestNotifiedDelayMinutes s3 = ?d"
      "hasNotifiedOverThreshold s3" "notificationSequence s3 = notificationSequence s + 1"
      "sent_keys ev3 = [deliveryId a @ ''-'' @ string_of_nat (notificationSequence s + 1)]"
      by simp_all
    from True clr have "s' = s3" "ev4 = []" by (simp_all add: clear_step_over)
    with e ev True show ?thesis by simp
  next
    case False
    with escalate_step_None [OF esc] have s3: "s3 = ?s1" "ev3 = []" by simp_all
    with clear_step_None [OF clr] clear_step_None_keys [OF clr] ev False show ?thesis
      by (simp split: if_splits)
  qed
qed

lemma evaluation_Some:
  assumes "evaluation a h s = (Some e, s', ev)"
  shows "sent_kinds ev = [] \<and> sent_keys ev = [] \<and> untouched s s' ev \<and>
         notificationSequence s \<le> notificationSequence s'"
proof (cases "act_fetchTrafficConditions h (origin a) (destination a)")
  case (Inl e')
  from assms evaluation_fetch_failed [OF Inl, of s] show ?thesis
    by (auto simp: untouched_after_signals)
next
  case (Inr t)
  let ?d = "delayMinutes t"
  let ?s1 = "after_signals (sig_fetch h) s"
  let ?ev2 = "map Handled (sig_fetch h) @ [Fetched (origin a) (destination a) ?d]"
  have u1: "untouched s ?s1 ?ev2"
    by (rule untouched_mono [OF untouched_after_signals]) auto
  obtain r3 s3 ev3 where esc: "escalate_step a h ?d ?s1 = (r3, s3, ev3)"
    by (cases "escalate_step a h ?d ?s1") auto
  show ?thesis
  proof (cases r3)
    case (Some e3)
    with assms esc Inr have eq: "s' = s3" "ev = ?ev2 @ ev3" "e3 = e"
      by (simp_all add: evaluation_fetched)
    from escalate_step_Some [OF esc [unfolded Some]]
    have f: "sent_kinds ev3 = []" "sent_keys ev3 = []" "untouched ?s1 s3 ev3"
      "notificationSequence ?s1 \<le> notificationSequence s3" by simp_all
    from untouched_trans [OF u1 f(3)] f eq show ?thesis by simp
  next
    case None
    with assms esc Inr have clr: "fst (clear_step a h ?d s3) = Some e"
      and eq: "s' = fst (snd (clear_step a h ?d s3))"
              "ev = ?ev2 @ ev3 @ snd (snd (clear_step a h ?d s3))"
      by (auto simp: evaluation_fetched split: prod.splits)
    then have clr': "clear_step a h ?d s3 = (Some e, s', snd (snd (clear_step a h ?d s3)))"
      by (metis prod.collapse)
    have below: "?d < thresholdMinutes a"
      using clr by (auto simp: clear_step_def split: if_splits)
    with escalate_step_None [OF esc [unfolded None]] have s3: "s3 = ?s1" "ev3 = []"
      by simp_all
    from clear_step_Some [OF clr'] s3
    have f: "sent_kinds (snd (snd (clear_step a h ?d s3))) = []"
      "sent_keys (snd (snd (clear_step a h ?d s3))) = []"
      "untouched ?s1 s' (snd (snd (clear_step a h ?d s3)))"
      "notificationSequence ?s1 \<le> notificationSequence s'" by simp_all
    from untouched_trans [OF u1 f(3)] f eq s3 show ?thesis by simp
  qed
qed


lemma evaluation_collapse:
  "fst (evaluation a h s) = r \<Longrightarrow>
   evaluation a h s = (r, fst (snd (evaluation a h s)), snd (snd (evaluation a h s)))"
  by (metis prod.collapse)

lemma cycle_collapse:
  "fst (cycle a h s) = r \<Longrightarrow>
   cycle a h s = (r, fst (snd (cycle a h s)), snd (snd (cycle a h s)))"
  by (metis prod.collapse)

lemma cycle_Some:
  assumes "cycle a h s = (Some e, s', ev)"
  shows "evaluation a h (fst (snooze_wait h s)) =
           (Some e, s', snd (snd (evaluation a h (fst (snooze_wait h s))))) \<and>
         ev = snd (snooze_wait h s) @ snd (snd (evaluation a h (fst (snooze_wait h s))))"
  using assms
  by (auto simp: cycle_def Let_def split: prod.splits option.splits)

lemma cycle_None:
  assumes "cycle a h s = (None, s', ev)"
  obtains s2 ev2 s3 where
    "evaluation a h (fst (snooze_wait h s)) = (None, s2, ev2)"
    "s3 = (if shouldCheckNow s2 then s2\<lparr>shouldCheckNow := False\<rparr> else s2)"
    "s' = fst (sleep baseMs (sig_base_sleep h) s3)"
    "ev = snd (snooze_wait h s) @ ev2 @ snd (sleep baseMs (sig_base_sleep h) s3)"
  using assms
  by (auto simp: cycle_def Let_def split: prod.splits option.splits)

lemma cycle_failed:
  assumes "cycle a h s = (Some e, s', ev)"
  shows "sent_kinds ev = [] \<and> sent_keys ev = [] \<and> untouched s s' ev \<and>
         notificationSequence s \<le> notificationSequence s'"
proof -
  let ?s1 = "fst (snooze_wait h s)"
  let ?ev1 = "snd (snooze_wait h s)"
  let ?ev2 = "snd (snd (evaluation a h ?s1))"
  from cycle_Some [OF assms] have ev: "evaluation a h ?s1 = (Some e, s', ?ev2)"
    and eq: "ev = ?ev1 @ ?ev2" by simp_all
  from evaluation_Some [OF ev]
  have f: "sent_kinds ?ev2 = []" "sent_keys ?ev2 = []" "untouched ?s1 s' ?ev2"
    "notificationSequence ?s1 \<le> notificationSequence s'" by simp_all
  from untouched_trans [OF untouched_snooze_wait f(3)] f eq show ?thesis by simp
qed

lemma fetch_of_evaluation_None:
  assumes "evaluation a h s = (None, s', ev)"
  obtains t where "act_fetchTrafficConditions h (origin a) (destination a) = Inr t"
  using assms
  by (cases "act_fetchTrafficConditions h (origin a) (destination a)")
     (auto simp: evaluation_fetch_failed)

text \<open>What one turn sends, and what it does to the flag and to the counter.\<close>

lemma cycle_sends:
  assumes "cycle a h s = (r, s', ev)"
  shows "(sent_kinds ev = [] \<and> sent_keys ev = [] \<and>
          hasNotifiedOverThreshold s' = hasNotifiedOverThreshold s \<and>
          notificationSequence s \<le> notificationSequence s' \<and>
          (r = None \<longrightarrow> notificationSequence s' = notificationSequence s)) \<or>
         (r = None \<and> sent_kinds ev = [Escalation] \<and>
          sent_keys ev = [deliveryId a @ ''-'' @ string_of_nat (notificationSequence s + 1)] \<and>
          hasNotifiedOverThreshold s' \<and>
          notificationSequence s' = notificationSequence s + 1) \<or>
         (r = None \<and> sent_kinds ev = [AllClear] \<and>
          sent_keys ev = [deliveryId a @ ''-'' @ string_of_nat (notificationSequence s + 1)] \<and>
          hasNotifiedOverThreshold s \<and> \<not> hasNotifiedOverThreshold s' \<and>
          notificationSequence s' = notificationSequence s + 1)"
proof (cases r)
  case (Some e)
  with cycle_failed [of a h s e s' ev] assms show ?thesis
    by (simp add: untouched_def)
next
  case None
  let ?s1 = "fst (snooze_wait h s)"
  from assms None obtain s2 ev2 s3 where
    ev: "evaluation a h ?s1 = (None, s2, ev2)"
    and s3: "s3 = (if shouldCheckNow s2 then s2\<lparr>shouldCheckNow := False\<rparr> else s2)"
    and s': "s' = fst (sleep baseMs (sig_base_sleep h) s3)"
    and eq: "ev = snd (snooze_wait h s) @ ev2 @ snd (sleep baseMs (sig_base_sleep h) s3)"
    by (auto elim: cycle_None)
  from ev obtain t where t: "act_fetchTrafficConditions h (origin a) (destination a) = Inr t"
    by (rule fetch_of_evaluation_None)
  have flag1: "hasNotifiedOverThreshold ?s1 = hasNotifiedOverThreshold s"
    using untouched_snooze_wait [of s h] by (simp add: untouched_def)
  have flag': "hasNotifiedOverThreshold s' = hasNotifiedOverThreshold s2"
    and seq': "notificationSequence s' = notificationSequence s2"
    using s3 s' by simp_all
  have k: "sent_kinds ev = sent_kinds ev2" "sent_keys ev = sent_keys ev2"
    using eq by simp_all
  from evaluation_None [OF ev t] flag1 flag' seq' k None show ?thesis
    by (simp split: if_splits)
qed

lemma cycle_quiet_untouched:
  assumes "cycle a h s = (r, s', ev)" and "sent_kinds ev = []"
  shows "untouched s s' ev"
proof (cases r)
  case (Some e)
  with cycle_failed [of a h s e s' ev] assms show ?thesis by simp
next
  case None
  let ?s1 = "fst (snooze_wait h s)"
  let ?ev1 = "snd (snooze_wait h s)"
  from assms None obtain s2 ev2 s3 where
    ev: "evaluation a h ?s1 = (None, s2, ev2)"
    and s3: "s3 = (if shouldCheckNow s2 then s2\<lparr>shouldCheckNow := False\<rparr> else s2)"
    and s': "s' = fst (sleep baseMs (sig_base_sleep h) s3)"
    and eq: "ev = ?ev1 @ ev2 @ snd (sleep baseMs (sig_base_sleep h) s3)"
    by (auto elim: cycle_None)
  from ev obtain t where t: "act_fetchTrafficConditions h (origin a) (destination a) = Inr t"
    by (rule fetch_of_evaluation_None)
  from eq assms(2) have "sent_kinds ev2 = []" by simp
  with evaluation_None [OF ev t] have s2: "s2 = after_signals (sig_fetch h) ?s1"
    by (simp split: if_splits)
  have u2: "untouched ?s1 s2 ev2"
  proof -
    have "set (map Handled (sig_fetch h)) \<subseteq> set ev2"
      using ev t by (auto simp: evaluation_fetched split: prod.splits option.splits)
    from untouched_mono [OF untouched_after_signals this] s2 show ?thesis
      by simp
  qed
  have u3: "untouched s2 s' (snd (sleep baseMs (sig_base_sleep h) s3))"
  proof -
    have "untouched s3 s' (snd (sleep baseMs (sig_base_sleep h) s3))"
      unfolding s' by (rule untouched_sleep)
    moreover have "hasNotifiedOverThreshold s3 = hasNotifiedOverThreshold s2"
      "highestNotifiedDelayMinutes s3 = highestNotifiedDelayMinutes s2"
      unfolding s3 by simp_all
    ultimately show ?thesis unfolding untouched_def by simp
  qed
  from untouched_trans [OF untouched_snooze_wait untouched_trans [OF u2 u3]] eq
  show ?thesis by simp
qed

section \<open>Evaluating the examples\<close>

lemmas turn_defs =
  cycle_def evaluation_def escalate_step_def clear_step_def snooze_wait_def
  await_activity_def Let_def baseMs_def

lemmas example_defs =
  quiet_host_def failing_send_host_def restart_in_fetch_host_def restart_in_flight_host_def
  restart_in_sleep_host_def restart_in_clear_host_def check_now_host_def demo_args_def wide_delta_args_def initial_state_def
  generateDelayMessage_def mock_env_def monitorDeliveryWorkflow_def

lemma notified_state_eq:
  "notified_state =
     \<lparr>highestNotifiedDelayMinutes = 35, notificationSequence = 1,
      hasNotifiedOverThreshold = True, snoozeSleepMs = None, shouldCheckNow = False\<rparr>"
  by (simp add: notified_state_def turn_defs example_defs)

section \<open>The escalation gate\<close>

text \<open>
  Claim C1. Take an evaluation (the fetch and the two notification blocks of one turn
  of the loop) none of whose awaits rejects, and let \<open>t\<close> be what the fetch resolved
  with. An escalation is sent in it if and only if
  \<open>delayMinutes t \<ge> thresholdMinutes\<close> and
  \<open>delayMinutes t \<ge> highestNotifiedDelayMinutes + notifyDeltaMinutes\<close>, the watermark being
  the one line 120 reads: that of the variables once the handlers of the signals that
  arrived during the fetch have run (with no such signal, the one the evaluation
  started with). When it is sent, the evaluation ends with
  \<open>highestNotifiedDelayMinutes = delayMinutes t\<close> and \<open>hasNotifiedOverThreshold = True\<close>.
\<close>

theorem escalation_iff_gate:
  assumes "evaluation a h s = (None, s', ev)"
      and "act_fetchTrafficConditions h (origin a) (destination a) = Inr t"
  shows "(Escalation \<in> set (sent_kinds ev) \<longleftrightarrow>
            delayMinutes t \<ge> thresholdMinutes a \<and>
            delayMinutes t \<ge> highestNotifiedDelayMinutes (after_signals (sig_fetch h) s)
                               + notifyDeltaMinutes a) \<and>
         (Escalation \<in> set (sent_kinds ev) \<longrightarrow>
            highestNotifiedDelayMinutes s' = delayMinutes t \<and>
            hasNotifiedOverThreshold s' = True)"
  using evaluation_None [OF assms] by (simp split: if_splits)

theorem escalation_iff_gate_witness:
  "fst (evaluation demo_args (quiet_host 35) initial_state) = None \<and>
   act_fetchTrafficConditions (quiet_host 35) (origin demo_args) (destination demo_args)
     = Inr \<lparr>plannedSeconds = 3600, inTrafficSeconds = 5700, delayMinutes = 35\<rparr> \<and>
   Escalation \<in> set (sent_kinds (snd (snd (evaluation demo_args (quiet_host 35) initial_state)))) \<and>
   highestNotifiedDelayMinutes (fst (snd (evaluation demo_args (quiet_host 35) initial_state))) = 35 \<and>
   hasNotifiedOverThreshold (fst (snd (evaluation demo_args (quiet_host 35) initial_state)))"
proof -
  let ?r = "evaluation demo_args (quiet_host 35) initial_state"
  have n: "fst ?r = None"
    by (simp add: evaluation_def escalate_step_def clear_step_def await_activity_def
        quiet_host_def demo_args_def initial_state_def Let_def generateDelayMessage_def
        mock_env_def)
  then have h1: "?r = (None, fst (snd ?r), snd (snd ?r))"
    by (metis prod.collapse)
  have h2: "act_fetchTrafficConditions (quiet_host 35) (origin demo_args) (destination demo_args)
              = Inr \<lparr>plannedSeconds = 3600, inTrafficSeconds = 5700, delayMinutes = 35\<rparr>"
    by (simp add: quiet_host_def)
  have h3: "sig_fetch (quiet_host 35) = []"
    by (simp add: quiet_host_def)
  from escalation_iff_gate [OF h1 h2] n h2 h3 show ?thesis
    by (simp add: initial_state_def demo_args_def)
qed

section \<open>The all-clear\<close>

lemma flag_after_append: "flag_after f (xs @ ys) = flag_after (flag_after f xs) ys"
  by (induction f xs rule: flag_after.induct) simp_all

lemma clear_ok_append:
  "clear_ok f (xs @ ys) \<longleftrightarrow> clear_ok f xs \<and> clear_ok (flag_after f xs) ys"
  by (induction f xs rule: clear_ok.induct) simp_all

lemma cycle_clear_ok:
  assumes "cycle a h s = (r, s', ev)"
  shows "clear_ok (hasNotifiedOverThreshold s) (sent_kinds ev) \<and>
         hasNotifiedOverThreshold s' = flag_after (hasNotifiedOverThreshold s) (sent_kinds ev)"
  using cycle_sends [OF assms] by auto

lemma run_clear_ok:
  "run a hs s = (r, s', ev) \<Longrightarrow>
   clear_ok (hasNotifiedOverThreshold s) (sent_kinds ev) \<and>
   hasNotifiedOverThreshold s' = flag_after (hasNotifiedOverThreshold s) (sent_kinds ev)"
proof (induction hs arbitrary: s r s' ev)
  case Nil
  then show ?case by simp
next
  case (Cons h hs)
  obtain r1 s1 ev1 where c: "cycle a h s = (r1, s1, ev1)"
    by (cases "cycle a h s") auto
  note c1 = cycle_clear_ok [OF c]
  show ?case
  proof (cases r1)
    case (Some e)
    with Cons.prems c c1 show ?thesis by simp
  next
    case None
    obtain r2 s2 ev2 where r: "run a hs s1 = (r2, s2, ev2)"
      by (cases "run a hs s1") auto
    from Cons.IH [OF r] c1 Cons.prems c None r show ?thesis
      by (auto simp: clear_ok_append flag_after_append)
  qed
qed

lemma clear_ok_adjacent:
  "clear_ok f ks \<Longrightarrow> Suc i < length ks \<Longrightarrow> ks ! i = AllClear \<Longrightarrow> ks ! Suc i = Escalation"
proof (induction f ks arbitrary: i rule: clear_ok.induct)
  case (1 f)
  then show ?case by simp
next
  case (2 f ks)
  then show ?case by (cases i) simp_all
next
  case (3 f ks)
  show ?case
  proof (cases i)
    case 0
    with "3.prems" obtain k ks' where ks: "ks = k # ks'" by (cases ks) auto
    with "3.prems" 0 show ?thesis by (cases k) simp_all
  next
    case (Suc i')
    with "3.prems" "3.IH" [of i'] show ?thesis by simp
  qed
qed

lemma cycle_below_no_escalation:
  assumes c: "cycle a h s = (r, s', ev)"
    and b: "\<forall>t. act_fetchTrafficConditions h (origin a) (destination a) = Inr t \<longrightarrow>
                delayMinutes t < thresholdMinutes a"
  shows "Escalation \<notin> set (sent_kinds ev)"
proof (cases r)
  case (Some e)
  with cycle_failed [of a h s e s' ev] c show ?thesis by simp
next
  case None
  from c None obtain s2 ev2 s3 where
    ev: "evaluation a h (fst (snooze_wait h s)) = (None, s2, ev2)"
    and eq: "ev = snd (snooze_wait h s) @ ev2 @ snd (sleep baseMs (sig_base_sleep h) s3)"
    by (auto elim: cycle_None)
  from ev obtain t where t: "act_fetchTrafficConditions h (origin a) (destination a) = Inr t"
    by (rule fetch_of_evaluation_None)
  with b have "delayMinutes t < thresholdMinutes a" by simp
  with evaluation_None [OF ev t] have "Escalation \<notin> set (sent_kinds ev2)"
    by (simp split: if_splits)
  with eq show ?thesis by simp
qed

lemma run_below_no_escalation:
  "run a hs s = (r, s', ev) \<Longrightarrow>
   \<forall>h\<in>set hs. \<forall>t. act_fetchTrafficConditions h (origin a) (destination a) = Inr t \<longrightarrow>
                 delayMinutes t < thresholdMinutes a \<Longrightarrow>
   Escalation \<notin> set (sent_kinds ev)"
proof (induction hs arbitrary: s r s' ev)
  case Nil
  then show ?case by simp
next
  case (Cons h hs)
  obtain r1 s1 ev1 where c: "cycle a h s = (r1, s1, ev1)"
    by (cases "cycle a h s") auto
  from Cons.prems(2) have "Escalation \<notin> set (sent_kinds ev1)"
    by (intro cycle_below_no_escalation [OF c]) simp
  moreover obtain r2 s2 ev2 where r: "run a hs s1 = (r2, s2, ev2)"
    by (cases "run a hs s1") auto
  moreover from Cons.IH [OF r] Cons.prems(2) have "Escalation \<notin> set (sent_kinds ev2)"
    by simp
  ultimately show ?case using Cons.prems(1) c
    by (cases r1) auto
qed

lemma clear_ok_no_escalation:
  assumes "clear_ok f ks" "Escalation \<notin> set ks"
  shows "length ks \<le> 1"
proof (cases ks)
  case Nil
  then show ?thesis by simp
next
  case (Cons k ks')
  with assms have k: "k = AllClear" by (cases k) auto
  with assms Cons have ok: "clear_ok False ks'" by simp
  have "ks' = []"
  proof (cases ks')
    case Nil
    then show ?thesis .
  next
    case (Cons k' ks'')
    with assms \<open>ks = k # ks'\<close> have "k' = AllClear" by (cases k') auto
    with ok Cons show ?thesis by simp
  qed
  with Cons show ?thesis by simp
qed

text \<open>
  Claim C2. In an evaluation none of whose awaits rejects, an all-clear is sent if and
  only if \<open>hasNotifiedOverThreshold\<close> is set when the evaluation starts and the fetched
  delay is below the threshold; when it is sent, the evaluation ends with
  \<open>highestNotifiedDelayMinutes = 0\<close> and \<open>hasNotifiedOverThreshold = False\<close>. In the
  notifications of any run, from any variables, under any signals and whether or not it
  ends in an error, between two all-clears there is an escalation. And a run all of
  whose fetched delays are below the threshold, which is what lies between two
  over-threshold episodes, sends at most one all-clear.
\<close>

theorem all_clear_gate:
  "(evaluation a h s = (None, s', ev) \<and>
    act_fetchTrafficConditions h (origin a) (destination a) = Inr t \<longrightarrow>
      (AllClear \<in> set (sent_kinds ev) \<longleftrightarrow>
         hasNotifiedOverThreshold s \<and> delayMinutes t < thresholdMinutes a) \<and>
      (AllClear \<in> set (sent_kinds ev) \<longrightarrow>
         highestNotifiedDelayMinutes s' = 0 \<and> hasNotifiedOverThreshold s' = False)) \<and>
   (run a hs s0 = (r, sN, evs) \<and> i < j \<and> j < length (sent_kinds evs) \<and>
    sent_kinds evs ! i = AllClear \<and> sent_kinds evs ! j = AllClear \<longrightarrow>
      (\<exists>k. i < k \<and> k < j \<and> sent_kinds evs ! k = Escalation)) \<and>
   (run a hs s0 = (r, sN, evs) \<and>
    (\<forall>h\<in>set hs. \<forall>t. act_fetchTrafficConditions h (origin a) (destination a) = Inr t \<longrightarrow>
                  delayMinutes t < thresholdMinutes a) \<longrightarrow>
      length (filter (\<lambda>k. k = AllClear) (sent_kinds evs)) \<le> 1)"
proof -
  have one: "(AllClear \<in> set (sent_kinds ev) \<longleftrightarrow>
                hasNotifiedOverThreshold s \<and> delayMinutes t < thresholdMinutes a) \<and>
             (AllClear \<in> set (sent_kinds ev) \<longrightarrow>
                highestNotifiedDelayMinutes s' = 0 \<and> hasNotifiedOverThreshold s' = False)"
    if e: "evaluation a h s = (None, s', ev)"
      and t: "act_fetchTrafficConditions h (origin a) (destination a) = Inr t"
    using evaluation_None [OF e t] by (auto split: if_splits)
  have many: "\<exists>k. i < k \<and> k < j \<and> sent_kinds evs ! k = Escalation"
    if r: "run a hs s0 = (r, sN, evs)" and ij: "i < j" "j < length (sent_kinds evs)"
      and c: "sent_kinds evs ! i = AllClear" "sent_kinds evs ! j = AllClear"
  proof -
    from run_clear_ok [OF r]
    have ok: "clear_ok (hasNotifiedOverThreshold s0) (sent_kinds evs)" by simp
    from ij have "Suc i < length (sent_kinds evs)" by simp
    from clear_ok_adjacent [OF ok this c(1)]
    have k: "sent_kinds evs ! Suc i = Escalation" .
    with c(2) have "Suc i \<noteq> j" by auto
    with ij k show ?thesis by (intro exI [of _ "Suc i"]) simp
  qed
  have stretch: "length (filter (\<lambda>k. k = AllClear) (sent_kinds evs)) \<le> 1"
    if r: "run a hs s0 = (r, sN, evs)"
      and b: "\<forall>h\<in>set hs. \<forall>t. act_fetchTrafficConditions h (origin a) (destination a) = Inr t \<longrightarrow>
                  delayMinutes t < thresholdMinutes a"
  proof -
    from run_clear_ok [OF r]
    have "clear_ok (hasNotifiedOverThreshold s0) (sent_kinds evs)" by simp
    from clear_ok_no_escalation [OF this run_below_no_escalation [OF r b]]
    have "length (sent_kinds evs) \<le> 1" .
    with length_filter_le [of "\<lambda>k. k = AllClear" "sent_kinds evs"] show ?thesis
      by (rule order_trans)
  qed
  from one many stretch show ?thesis by blast
qed

theorem all_clear_gate_witness:
  "fst (evaluation demo_args (quiet_host 20) notified_state) = None \<and>
   act_fetchTrafficConditions (quiet_host 20) (origin demo_args) (destination demo_args)
     = Inr \<lparr>plannedSeconds = 3600, inTrafficSeconds = 4800, delayMinutes = 20\<rparr> \<and>
   AllClear \<in> set (sent_kinds (snd (snd (evaluation demo_args (quiet_host 20) notified_state)))) \<and>
   highestNotifiedDelayMinutes (fst (snd (evaluation demo_args (quiet_host 20) notified_state))) = 0 \<and>
   \<not> hasNotifiedOverThreshold (fst (snd (evaluation demo_args (quiet_host 20) notified_state))) \<and>
   sent_kinds (snd (snd (run demo_args (map quiet_host [35, 20, 36, 20]) initial_state)))
     = [Escalation, AllClear, Escalation, AllClear] \<and>
   (\<exists>k. 1 < k \<and> k < 3 \<and>
        sent_kinds (snd (snd (run demo_args (map quiet_host [35, 20, 36, 20]) initial_state))) ! k
          = Escalation) \<and>
   sent_kinds (snd (snd (run demo_args (map quiet_host [20, 10, 29]) notified_state)))
     = [AllClear] \<and>
   length (filter (\<lambda>k. k = AllClear)
     (sent_kinds (snd (snd (run demo_args (map quiet_host [20, 10, 29]) notified_state))))) \<le> 1"
proof -
  let ?e = "evaluation demo_args (quiet_host 20) notified_state"
  let ?r = "run demo_args (map quiet_host [35, 20, 36, 20]) initial_state"
  let ?q = "run demo_args (map quiet_host [20, 10, 29]) notified_state"
  let ?t = "\<lparr>plannedSeconds = 3600, inTrafficSeconds = 4800, delayMinutes = 20\<rparr>"
  have n: "fst ?e = None"
    by (simp add: notified_state_eq turn_defs example_defs)
  then have h1: "?e = (None, fst (snd ?e), snd (snd ?e))"
    by (rule evaluation_collapse)
  have h2: "act_fetchTrafficConditions (quiet_host 20) (origin demo_args) (destination demo_args)
              = Inr ?t"
    by (simp add: quiet_host_def)
  have h3: "?r = (fst ?r, fst (snd ?r), snd (snd ?r))"
    by simp
  have ks: "sent_kinds (snd (snd ?r)) = [Escalation, AllClear, Escalation, AllClear]"
    by (simp add: turn_defs example_defs)
  have ix: "(1::nat) < 3" "3 < length (sent_kinds (snd (snd ?r)))"
    "sent_kinds (snd (snd ?r)) ! 1 = AllClear" "sent_kinds (snd (snd ?r)) ! 3 = AllClear"
    unfolding ks by simp_all
  have h4: "?q = (fst ?q, fst (snd ?q), snd (snd ?q))"
    by simp
  have below: "\<forall>h\<in>set (map quiet_host [20, 10, 29]).
      \<forall>t. act_fetchTrafficConditions h (origin demo_args) (destination demo_args) = Inr t \<longrightarrow>
          delayMinutes t < thresholdMinutes demo_args"
    by (auto simp: quiet_host_def demo_args_def)
  have qs: "sent_kinds (snd (snd ?q)) = [AllClear]"
    by (simp add: notified_state_eq turn_defs example_defs)
  from all_clear_gate [of demo_args "quiet_host 20" notified_state "fst (snd ?e)" "snd (snd ?e)"
      ?t "map quiet_host [35, 20, 36, 20]" initial_state "fst ?r" "fst (snd ?r)" "snd (snd ?r)" 1 3]
    h1 h2 h3 ix
  have a: "AllClear \<in> set (sent_kinds (snd (snd ?e)))"
    "highestNotifiedDelayMinutes (fst (snd ?e)) = 0" "\<not> hasNotifiedOverThreshold (fst (snd ?e))"
    "\<exists>k. 1 < k \<and> k < 3 \<and> sent_kinds (snd (snd ?r)) ! k = Escalation"
    by (simp_all add: notified_state_eq demo_args_def)
  from all_clear_gate [where a = demo_args and hs = "map quiet_host [20, 10, 29]"
      and ?s0.0 = notified_state and r = "fst ?q" and sN = "fst (snd ?q)" and evs = "snd (snd ?q)"]
    h4 below
  have b: "length (filter (\<lambda>k. k = AllClear) (sent_kinds (snd (snd ?q)))) \<le> 1"
    by blast
  from n h2 a ks qs b show ?thesis by blast
qed

section \<open>A failing turn\<close>

text \<open>
  Claim C5. A turn that ends in an error (whichever await rejected, the mail dispatch
  included) leaves \<open>hasNotifiedOverThreshold\<close> as it was, and leaves
  \<open>highestNotifiedDelayMinutes\<close> as it was unless the handler of a \<^verbatim>\<open>routeRestarted\<close>
  signal that arrived during the turn has set it to 0. And whenever a turn ends with a
  different flag, or with a different watermark that no such handler explains, the turn
  did not fail and a notification was dispatched in it: lines 126, 127, 138 and 139 come
  after the awaited dispatch.
\<close>

theorem watermark_kept_on_failure:
  assumes "cycle a h s = (r, s', ev)"
  shows "(r \<noteq> None \<longrightarrow>
            hasNotifiedOverThreshold s' = hasNotifiedOverThreshold s \<and>
            (highestNotifiedDelayMinutes s' = highestNotifiedDelayMinutes s \<or>
             (highestNotifiedDelayMinutes s' = 0 \<and> Handled RouteRestarted \<in> set ev))) \<and>
         ((hasNotifiedOverThreshold s' \<noteq> hasNotifiedOverThreshold s \<or>
           (highestNotifiedDelayMinutes s' \<noteq> highestNotifiedDelayMinutes s \<and>
            Handled RouteRestarted \<notin> set ev)) \<longrightarrow>
            r = None \<and> sent_kinds ev \<noteq> [])"
proof -
  have failed: "untouched s s' ev" if "r \<noteq> None"
  proof -
    from that obtain e where "r = Some e" by auto
    with cycle_failed [of a h s e s' ev] assms show ?thesis by simp
  qed
  have quiet: "untouched s s' ev" if "sent_kinds ev = []"
    using cycle_quiet_untouched [OF assms that] .
  have sent: "r = None" if "sent_kinds ev \<noteq> []"
    using cycle_sends [OF assms] that by auto
  from failed quiet sent show ?thesis
    unfolding untouched_def by blast
qed

theorem watermark_kept_on_failure_witness:
  "fst (cycle demo_args (failing_send_host 35) initial_state)
     = Some (ActivityFailure ''SendGrid HTTP 500'') \<and>
   hasNotifiedOverThreshold (fst (snd (cycle demo_args (failing_send_host 35) initial_state)))
     = hasNotifiedOverThreshold initial_state \<and>
   highestNotifiedDelayMinutes (fst (snd (cycle demo_args (failing_send_host 35) initial_state)))
     = highestNotifiedDelayMinutes initial_state \<and>
   hasNotifiedOverThreshold (fst (snd (cycle demo_args (quiet_host 35) initial_state)))
     \<noteq> hasNotifiedOverThreshold initial_state \<and>
   fst (cycle demo_args (quiet_host 35) initial_state) = None \<and>
   sent_kinds (snd (snd (cycle demo_args (quiet_host 35) initial_state))) \<noteq> []"
proof -
  let ?f = "cycle demo_args (failing_send_host 35) initial_state"
  let ?g = "cycle demo_args (quiet_host 35) initial_state"
  have f: "fst ?f = Some (ActivityFailure ''SendGrid HTTP 500'')"
    by (simp add: turn_defs example_defs)
  have nr: "Handled RouteRestarted \<notin> set (snd (snd ?f))"
    by (simp add: turn_defs example_defs)
  have g: "hasNotifiedOverThreshold (fst (snd ?g)) \<noteq> hasNotifiedOverThreshold initial_state"
    by (simp add: turn_defs example_defs)
  have cf: "?f = (fst ?f, fst (snd ?f), snd (snd ?f))" and cg: "?g = (fst ?g, fst (snd ?g), snd (snd ?g))"
    by simp_all
  from watermark_kept_on_failure [OF cf] watermark_kept_on_failure [OF cg] f nr g
  show ?thesis by auto
qed

section \<open>Failed activity calls\<close>












section \<open>Restarting the route\<close>

lemma snooze_wait_highest:
  "highestNotifiedDelayMinutes (fst (snooze_wait h s)) =
     (if Handled RouteRestarted \<in> set (snd (snooze_wait h s)) then 0
      else highestNotifiedDelayMinutes s)"
proof (cases "snoozeSleepMs s")
  case None
  then show ?thesis by (simp add: snooze_wait_def)
next
  case (Some ms)
  show ?thesis
  proof (cases "shouldCheckNow s")
    case True
    with Some show ?thesis by (simp add: snooze_wait_def)
  next
    case False
    with Some sleep_highest [of ms "sig_snooze_sleep h" "s\<lparr>snoozeSleepMs := None\<rparr>"]
    show ?thesis by (simp add: snooze_wait_def)
  qed
qed

text \<open>The watermark that line 120 reads in the turn \<open>h\<close> started from \<open>s\<close>.\<close>

lemma gate_highest:
  "highestNotifiedDelayMinutes (after_signals (sig_fetch h) (fst (snooze_wait h s))) =
     (if Handled RouteRestarted \<in> set (snd (snooze_wait h s)) \<or>
         RouteRestarted \<in> set (sig_fetch h)
      then 0 else highestNotifiedDelayMinutes s)"
  by (simp add: after_signals_highest snooze_wait_highest)

lemma cycle_gate_zero:
  assumes z: "highestNotifiedDelayMinutes s = 0 \<or>
              Handled RouteRestarted \<in> set (snd (snooze_wait h s)) \<or>
              RouteRestarted \<in> set (sig_fetch h)"
    and c: "cycle a h s = (None, s', ev)"
    and t: "act_fetchTrafficConditions h (origin a) (destination a) = Inr t"
    and d: "thresholdMinutes a \<le> delayMinutes t" "notifyDeltaMinutes a \<le> delayMinutes t"
  shows "sent_kinds ev = [Escalation]"
proof -
  let ?s1 = "fst (snooze_wait h s)"
  from c obtain s2 ev2 s3 where
    ev: "evaluation a h ?s1 = (None, s2, ev2)"
    and eq: "ev = snd (snooze_wait h s) @ ev2 @ snd (sleep baseMs (sig_base_sleep h) s3)"
    by (auto elim: cycle_None)
  from z have "highestNotifiedDelayMinutes (after_signals (sig_fetch h) ?s1) = 0"
    by (auto simp: gate_highest)
  with evaluation_None [OF ev t] d have "sent_kinds ev2 = [Escalation]" by simp
  with eq show ?thesis by simp
qed

lemma cycle_turn_until_sleep:
  "cycle a h s =
     (case turn_until_sleep a h s of
        (Some e, s3, ev3) \<Rightarrow> (Some e, s3, ev3)
      | (None, s3, ev3) \<Rightarrow>
          (case sleep baseMs (sig_base_sleep h) s3 of (s4, ev4) \<Rightarrow> (None, s4, ev3 @ ev4)))"
  by (simp add: cycle_def turn_until_sleep_def Let_def split: prod.splits option.splits)

lemma restart_in_base_sleep:
  assumes b: "turn_until_sleep a h s = (None, s3, ev3)"
    and r: "Handled RouteRestarted \<in> set (snd (sleep baseMs (sig_base_sleep h) s3))"
  shows "highestNotifiedDelayMinutes (fst (snd (cycle a h s))) = 0"
proof -
  from b have "fst (snd (cycle a h s)) = fst (sleep baseMs (sig_base_sleep h) s3)"
    by (cases "sleep baseMs (sig_base_sleep h) s3") (simp add: cycle_turn_until_sleep)
  with r sleep_highest [of baseMs "sig_base_sleep h" s3] show ?thesis by simp
qed

lemma cycle_after_all_clear:
  assumes c: "cycle a h s = (None, s', ev)" and k: "AllClear \<in> set (sent_kinds ev)"
  shows "highestNotifiedDelayMinutes s' = 0"
proof -
  let ?s1 = "fst (snooze_wait h s)"
  from c obtain s2 ev2 s3 where
    ev: "evaluation a h ?s1 = (None, s2, ev2)"
    and s3: "s3 = (if shouldCheckNow s2 then s2\<lparr>shouldCheckNow := False\<rparr> else s2)"
    and s': "s' = fst (sleep baseMs (sig_base_sleep h) s3)"
    and eq: "ev = snd (snooze_wait h s) @ ev2 @ snd (sleep baseMs (sig_base_sleep h) s3)"
    by (auto elim: cycle_None)
  from ev obtain t where t: "act_fetchTrafficConditions h (origin a) (destination a) = Inr t"
    by (rule fetch_of_evaluation_None)
  from k eq have "AllClear \<in> set (sent_kinds ev2)" by simp
  with evaluation_None [OF ev t] have "highestNotifiedDelayMinutes s2 = 0"
    by (simp split: if_splits)
  then have "highestNotifiedDelayMinutes s3 = 0" unfolding s3 by simp
  with sleep_highest [of baseMs "sig_base_sleep h" s3] show ?thesis
    unfolding s' by simp
qed

lemma escalation_overwrites:
  assumes "escalate_step a h d x = (None, x', ev)"
    and "thresholdMinutes a \<le> d" "highestNotifiedDelayMinutes x + notifyDeltaMinutes a \<le> d"
  shows "highestNotifiedDelayMinutes x' = d"
  using escalate_step_None [OF assms(1)] assms(2,3) by simp

lemma watermark_ok_untouched:
  "untouched s s' ev \<Longrightarrow> watermark_ok a s \<Longrightarrow> watermark_ok a s'"
  by (auto simp: untouched_def watermark_ok_def)

lemma evaluation_watermark_ok:
  assumes ev: "evaluation a h s = (None, s', ev)" and ok: "watermark_ok a s"
  shows "watermark_ok a s'"
proof -
  from ev obtain t where t: "act_fetchTrafficConditions h (origin a) (destination a) = Inr t"
    by (rule fetch_of_evaluation_None)
  let ?s1 = "after_signals (sig_fetch h) s"
  have ok1: "watermark_ok a ?s1"
    by (rule watermark_ok_untouched [OF untouched_after_signals ok])
  show ?thesis
  proof (cases "delayMinutes t \<ge> thresholdMinutes a \<and>
                delayMinutes t \<ge> highestNotifiedDelayMinutes ?s1 + notifyDeltaMinutes a")
    case True
    with evaluation_None [OF ev t]
    have "highestNotifiedDelayMinutes s' = delayMinutes t" by simp
    with True ok1 show ?thesis by (auto simp: watermark_ok_def)
  next
    case False
    with evaluation_None [OF ev t]
    have "highestNotifiedDelayMinutes s' = 0 \<or> s' = ?s1" by (simp split: if_splits)
    with ok1 show ?thesis by (auto simp: watermark_ok_def)
  qed
qed

lemma turn_until_sleep_watermark_ok:
  assumes b: "turn_until_sleep a h s = (None, s3, ev3)" and ok: "watermark_ok a s"
  shows "watermark_ok a s3"
proof -
  let ?s1 = "fst (snooze_wait h s)"
  from b obtain s2 ev2 where
    ev: "evaluation a h ?s1 = (None, s2, ev2)"
    and s3: "s3 = (if shouldCheckNow s2 then s2\<lparr>shouldCheckNow := False\<rparr> else s2)"
    by (auto simp: turn_until_sleep_def split: prod.splits option.splits)
  have "watermark_ok a ?s1"
    by (rule watermark_ok_untouched [OF untouched_snooze_wait ok])
  from evaluation_watermark_ok [OF ev this] show ?thesis
    unfolding s3 by (simp add: watermark_ok_def)
qed

lemma cycle_watermark_ok:
  assumes c: "cycle a h s = (r, s', ev)" and ok: "watermark_ok a s"
  shows "watermark_ok a s'"
proof (cases r)
  case (Some e)
  with cycle_failed [of a h s e s' ev] c have "untouched s s' ev" by simp
  then show ?thesis using ok by (rule watermark_ok_untouched)
next
  case None
  obtain r3 s3 ev3 where b: "turn_until_sleep a h s = (r3, s3, ev3)"
    by (cases "turn_until_sleep a h s") auto
  with c None have r3: "r3 = None" and s': "s' = fst (sleep baseMs (sig_base_sleep h) s3)"
    by (auto simp: cycle_turn_until_sleep split: prod.splits option.splits)
  from turn_until_sleep_watermark_ok [OF b [unfolded r3] ok] have "watermark_ok a s3" .
  from watermark_ok_untouched [OF untouched_sleep this] show ?thesis
    unfolding s' .
qed

lemma run_watermark_ok:
  "run a hs s = (r, s', ev) \<Longrightarrow> watermark_ok a s \<Longrightarrow> watermark_ok a s'"
proof (induction hs arbitrary: s r s' ev)
  case Nil
  then show ?case by simp
next
  case (Cons h hs)
  obtain r1 s1 ev1 where c: "cycle a h s = (r1, s1, ev1)"
    by (cases "cycle a h s") auto
  note ok1 = cycle_watermark_ok [OF c Cons.prems(2)]
  show ?case
  proof (cases r1)
    case (Some e)
    with Cons.prems(1) c ok1 show ?thesis by simp
  next
    case None
    obtain r2 s2 ev2 where r: "run a hs s1 = (r2, s2, ev2)"
      by (cases "run a hs s1") auto
    from Cons.IH [OF r ok1] Cons.prems(1) c None r show ?thesis by simp
  qed
qed

lemma initial_watermark_ok: "watermark_ok a initial_state"
  by (simp add: watermark_ok_def initial_state_def)

lemma watermark_passes_gate:
  assumes "watermark_ok a s" "highestNotifiedDelayMinutes s = w" "0 < w"
  shows "thresholdMinutes a \<le> w \<and> notifyDeltaMinutes a \<le> w"
  using assms by (auto simp: watermark_ok_def)

lemma result_collapse: "fst x = r \<Longrightarrow> x = (r, fst (snd x), snd (snd x))"
  by (metis prod.collapse)

text \<open>
  Claim C6, as the specification states it, fails in two ways. Where the delta is larger
  than the threshold: with a threshold of 30 and a delta of 40, after an escalation at
  50 and \<^verbatim>\<open>routeRestarted()\<close>, a turn with a delay of 35 completes and sends nothing.
  And where the signal arrives while an escalation is in flight: with a threshold of 30
  and a delta of 10, after an escalation at 35, \<^verbatim>\<open>routeRestarted()\<close> is handled while
  the message of an escalation at 50 is generated; line 126 then sets the watermark to
  50, and the following turn, with a delay of 55, sends nothing.
\<close>

theorem route_restart_counterexample:
  "thresholdMinutes wide_delta_args \<le> 35 \<and>
   fst (cycle wide_delta_args (quiet_host 35)
          (routeRestarted_handler
             (fst (snd (monitorDeliveryWorkflow wide_delta_args [quiet_host 50]))))) = None \<and>
   sent_kinds (snd (snd (cycle wide_delta_args (quiet_host 35)
          (routeRestarted_handler
             (fst (snd (monitorDeliveryWorkflow wide_delta_args [quiet_host 50]))))))) = [] \<and>
   monitorDeliveryWorkflow demo_args [quiet_host 35, restart_in_flight_host 50, quiet_host 55] =
     (None,
      \<lparr>highestNotifiedDelayMinutes = 50, notificationSequence = 2,
       hasNotifiedOverThreshold = True, snoozeSleepMs = None, shouldCheckNow = False\<rparr>,
      [Fetched ''San Francisco, CA'' ''Oakland, CA'' 35,
       Sent Escalation ''you@example.com'' ''Delay update for delivery demo''
         (fallback demo_context) ''demo-1'',
       Waited 1800000,
       Fetched ''San Francisco, CA'' ''Oakland, CA'' 50,
       Handled RouteRestarted,
       Sent Escalation ''you@example.com'' ''Delay update for delivery demo''
         (fallback (demo_context\<lparr>ctx_delayMinutes := 50\<rparr>)) ''demo-2'',
       Waited 1800000,
       Fetched ''San Francisco, CA'' ''Oakland, CA'' 55,
       Waited 1800000])"
  by (simp add: turn_defs example_defs after_signals_def routeRestarted_handler_def demo_context_def
      string_of_nat.simps digit_char_def)

text \<open>
  Claim C6, amended. The handler of \<^verbatim>\<open>routeRestarted\<close> sets the watermark to 0 and
  leaves the four other variables as they are. When it runs during the base sleep of a
  turn, that turn ends with a watermark of 0, as does every turn that sent an all-clear.
  A turn that starts with a watermark of 0, or during whose snooze sleep or fetch the
  handler runs, and none of whose awaits rejects, sends an escalation at any delay that
  is at least the threshold and at least the delta. When the handler runs during the
  message or mail activity of an escalation, line 126 overwrites what it wrote: the
  escalation block ends with the watermark at the delay of that escalation.
\<close>

theorem route_restart_resets_watermark:
  "highestNotifiedDelayMinutes (routeRestarted_handler s) = 0 \<and>
   hasNotifiedOverThreshold (routeRestarted_handler s) = hasNotifiedOverThreshold s \<and>
   notificationSequence (routeRestarted_handler s) = notificationSequence s \<and>
   snoozeSleepMs (routeRestarted_handler s) = snoozeSleepMs s \<and>
   shouldCheckNow (routeRestarted_handler s) = shouldCheckNow s \<and>
   (turn_until_sleep a h0 s0 = (None, s3, ev3) \<and>
    Handled RouteRestarted \<in> set (snd (sleep baseMs (sig_base_sleep h0) s3)) \<longrightarrow>
      highestNotifiedDelayMinutes (fst (snd (cycle a h0 s0))) = 0) \<and>
   (cycle a h0 s0 = (None, s1, ev1) \<and> AllClear \<in> set (sent_kinds ev1) \<longrightarrow>
      highestNotifiedDelayMinutes s1 = 0) \<and>
   (cycle a h x = (None, s', ev) \<and>
    act_fetchTrafficConditions h (origin a) (destination a) = Inr t \<and>
    thresholdMinutes a \<le> delayMinutes t \<and> notifyDeltaMinutes a \<le> delayMinutes t \<and>
    (highestNotifiedDelayMinutes x = 0 \<or>
     Handled RouteRestarted \<in> set (snd (snooze_wait h x)) \<or>
     RouteRestarted \<in> set (sig_fetch h)) \<longrightarrow>
      Escalation \<in> set (sent_kinds ev)) \<and>
   (escalate_step a h d y = (None, y', ev') \<and>
    thresholdMinutes a \<le> d \<and> highestNotifiedDelayMinutes y + notifyDeltaMinutes a \<le> d \<longrightarrow>
      highestNotifiedDelayMinutes y' = d)"
proof -
  have sleeping: "highestNotifiedDelayMinutes (fst (snd (cycle a h0 s0))) = 0"
    if "turn_until_sleep a h0 s0 = (None, s3, ev3)"
      "Handled RouteRestarted \<in> set (snd (sleep baseMs (sig_base_sleep h0) s3))"
    using that by (rule restart_in_base_sleep)
  have cleared: "highestNotifiedDelayMinutes s1 = 0"
    if "cycle a h0 s0 = (None, s1, ev1)" "AllClear \<in> set (sent_kinds ev1)"
    using that by (rule cycle_after_all_clear)
  have gate: "Escalation \<in> set (sent_kinds ev)"
    if "cycle a h x = (None, s', ev)"
      "act_fetchTrafficConditions h (origin a) (destination a) = Inr t"
      "thresholdMinutes a \<le> delayMinutes t" "notifyDeltaMinutes a \<le> delayMinutes t"
      "highestNotifiedDelayMinutes x = 0 \<or>
       Handled RouteRestarted \<in> set (snd (snooze_wait h x)) \<or>
       RouteRestarted \<in> set (sig_fetch h)"
    using cycle_gate_zero [OF that(5) that(1-4)] by simp
  have lost: "highestNotifiedDelayMinutes y' = d"
    if "escalate_step a h d y = (None, y', ev')" "thresholdMinutes a \<le> d"
      "highestNotifiedDelayMinutes y + notifyDeltaMinutes a \<le> d"
    using that by (rule escalation_overwrites)
  from sleeping cleared gate lost show ?thesis
    by (simp add: routeRestarted_handler_def)
qed

theorem route_restart_resets_watermark_witness:
  "highestNotifiedDelayMinutes notified_state = 35 \<and>
   highestNotifiedDelayMinutes (routeRestarted_handler notified_state) = 0 \<and>
   hasNotifiedOverThreshold (routeRestarted_handler notified_state) \<and>
   fst (turn_until_sleep demo_args (restart_in_sleep_host 38) notified_state) = None \<and>
   Handled RouteRestarted \<in> set (snd (sleep baseMs (sig_base_sleep (restart_in_sleep_host 38))
     (fst (snd (turn_until_sleep demo_args (restart_in_sleep_host 38) notified_state))))) \<and>
   highestNotifiedDelayMinutes
     (fst (snd (cycle demo_args (restart_in_sleep_host 38) notified_state))) = 0 \<and>
   fst (cycle demo_args (restart_in_clear_host 20) notified_state) = None \<and>
   AllClear \<in> set (sent_kinds (snd (snd
     (cycle demo_args (restart_in_clear_host 20) notified_state)))) \<and>
   highestNotifiedDelayMinutes
     (fst (snd (cycle demo_args (restart_in_clear_host 20) notified_state))) = 0 \<and>
   fst (cycle demo_args (restart_in_fetch_host 40) notified_state) = None \<and>
   RouteRestarted \<in> set (sig_fetch (restart_in_fetch_host 40)) \<and>
   Escalation \<in> set (sent_kinds (snd (snd
     (cycle demo_args (restart_in_fetch_host 40) notified_state)))) \<and>
   fst (cycle demo_args (quiet_host 40) (routeRestarted_handler notified_state)) = None \<and>
   Escalation \<in> set (sent_kinds (snd (snd
     (cycle demo_args (quiet_host 40) (routeRestarted_handler notified_state))))) \<and>
   fst (escalate_step demo_args (restart_in_flight_host 50) 50 notified_state) = None \<and>
   RouteRestarted \<in> set (sig_generate (restart_in_flight_host 50)) \<and>
   highestNotifiedDelayMinutes
     (fst (snd (escalate_step demo_args (restart_in_flight_host 50) 50 notified_state))) = 50"
proof -
  let ?b = "turn_until_sleep demo_args (restart_in_sleep_host 38) notified_state"
  let ?cs = "cycle demo_args (restart_in_sleep_host 38) notified_state"
  let ?cc = "cycle demo_args (restart_in_clear_host 20) notified_state"
  let ?cf = "cycle demo_args (restart_in_fetch_host 40) notified_state"
  let ?ct = "cycle demo_args (quiet_host 40) (routeRestarted_handler notified_state)"
  let ?e = "escalate_step demo_args (restart_in_flight_host 50) 50 notified_state"
  let ?t = "\<lparr>plannedSeconds = 3600, inTrafficSeconds = 6000, delayMinutes = 40\<rparr>"
  note T = route_restart_resets_watermark
  note ev = notified_state_eq turn_defs example_defs after_signals_def routeRestarted_handler_def
  have st: "highestNotifiedDelayMinutes notified_state = 35"
    by (simp add: notified_state_eq)
  have b: "fst ?b = None"
    by (simp add: turn_until_sleep_def ev)
  have br: "Handled RouteRestarted \<in> set (snd (sleep baseMs
              (sig_base_sleep (restart_in_sleep_host 38)) (fst (snd ?b))))"
    by (simp add: turn_until_sleep_def ev)
  from T [where a = demo_args and ?h0.0 = "restart_in_sleep_host 38" and ?s0.0 = notified_state
      and ?s3.0 = "fst (snd ?b)" and ?ev3.0 = "snd (snd ?b)"]
    result_collapse [OF b] br
  have w1: "highestNotifiedDelayMinutes (fst (snd ?cs)) = 0" by blast
  have c: "fst ?cc = None"
    by (simp add: ev)
  have ck: "AllClear \<in> set (sent_kinds (snd (snd ?cc)))"
    by (simp add: ev)
  from T [where a = demo_args and ?h0.0 = "restart_in_clear_host 20" and ?s0.0 = notified_state
      and ?s1.0 = "fst (snd ?cc)" and ?ev1.0 = "snd (snd ?cc)"]
    result_collapse [OF c] ck
  have w2: "highestNotifiedDelayMinutes (fst (snd ?cc)) = 0" by blast
  have t: "act_fetchTrafficConditions (restart_in_fetch_host 40) (origin demo_args)
             (destination demo_args) = Inr ?t"
    "act_fetchTrafficConditions (quiet_host 40) (origin demo_args) (destination demo_args)
       = Inr ?t"
    by (simp_all add: restart_in_fetch_host_def quiet_host_def)
  have d: "thresholdMinutes demo_args \<le> delayMinutes ?t"
    "notifyDeltaMinutes demo_args \<le> delayMinutes ?t"
    by (simp_all add: demo_args_def)
  have f: "fst ?cf = None"
    by (simp add: ev)
  have fr: "RouteRestarted \<in> set (sig_fetch (restart_in_fetch_host 40))"
    by (simp add: restart_in_fetch_host_def quiet_host_def)
  from T [where a = demo_args and h = "restart_in_fetch_host 40" and x = notified_state
      and s' = "fst (snd ?cf)" and ev = "snd (snd ?cf)" and t = ?t]
    result_collapse [OF f] t(1) d fr
  have w3: "Escalation \<in> set (sent_kinds (snd (snd ?cf)))" by blast
  have p: "fst ?ct = None"
    by (simp add: ev)
  have pz: "highestNotifiedDelayMinutes (routeRestarted_handler notified_state) = 0"
    "hasNotifiedOverThreshold (routeRestarted_handler notified_state)"
    using T [where s = notified_state] by (simp_all add: notified_state_eq)
  from T [where a = demo_args and h = "quiet_host 40"
      and x = "routeRestarted_handler notified_state"
      and s' = "fst (snd ?ct)" and ev = "snd (snd ?ct)" and t = ?t]
    result_collapse [OF p] t(2) d pz(1)
  have w4: "Escalation \<in> set (sent_kinds (snd (snd ?ct)))" by blast
  have e: "fst ?e = None"
    by (simp add: ev)
  have er: "RouteRestarted \<in> set (sig_generate (restart_in_flight_host 50))"
    by (simp add: restart_in_flight_host_def quiet_host_def)
  have eg: "thresholdMinutes demo_args \<le> 50"
    "highestNotifiedDelayMinutes notified_state + notifyDeltaMinutes demo_args \<le> 50"
    by (simp_all add: demo_args_def notified_state_eq)
  from T [where a = demo_args and h = "restart_in_flight_host 50" and d = 50
      and y = notified_state and y' = "fst (snd ?e)" and ev' = "snd (snd ?e)"]
    result_collapse [OF e] eg
  have w5: "highestNotifiedDelayMinutes (fst (snd ?e)) = 50" by blast
  from st pz b br w1 c ck w2 f fr w3 p w4 e er w5 show ?thesis by blast
qed

text \<open>
  Claim C7, as the specification states it, fails for the states inside an escalation in
  flight. After an escalation at 35 the watermark is 35. In the next turn the fetched
  delay is 50, the gate opens, and \<^verbatim>\<open>routeRestarted()\<close> is handled while the message
  is generated, at a watermark of 35. Line 126 then writes 50, and the following turn,
  which fetches the old watermark 35, sends nothing.
\<close>

theorem old_watermark_counterexample:
  "highestNotifiedDelayMinutes notified_state = 35 \<and>
   run demo_args [restart_in_flight_host 50, quiet_host 35] notified_state =
     (None,
      \<lparr>highestNotifiedDelayMinutes = 50, notificationSequence = 2,
       hasNotifiedOverThreshold = True, snoozeSleepMs = None, shouldCheckNow = False\<rparr>,
      [Fetched ''San Francisco, CA'' ''Oakland, CA'' 50,
       Handled RouteRestarted,
       Sent Escalation ''you@example.com'' ''Delay update for delivery demo''
         (fallback (demo_context\<lparr>ctx_delayMinutes := 50\<rparr>)) ''demo-2'',
       Waited 1800000,
       Fetched ''San Francisco, CA'' ''Oakland, CA'' 35,
       Waited 1800000])"
  by (simp add: notified_state_eq turn_defs example_defs after_signals_def routeRestarted_handler_def
      demo_context_def string_of_nat.simps digit_char_def)

text \<open>
  Claim C7, amended. Let the workflow have run some turns from its initial state, under
  any signals, and stand at the top of the loop. If the watermark is \<open>w > 0\<close> there and
  \<^verbatim>\<open>routeRestarted()\<close> is applied there, or is handled during the snooze sleep or the
  fetch of the next turn, then that turn, its fetch reporting \<open>w\<close> and none of its
  awaits rejecting, sends an escalation. So does the turn after a turn in whose base
  sleep the handler runs at a watermark \<open>w > 0\<close>, and the turn after one that sent an
  all-clear from a watermark \<open>w > 0\<close>, which covers a handler that runs during the
  dispatch of that all-clear. These are all the awaits of the loop but the two of an
  escalation in flight.
\<close>

theorem old_watermark_retriggers:
  assumes reach: "monitorDeliveryWorkflow a hs = (None, s, ev0)"
  shows
    "(highestNotifiedDelayMinutes s = w \<and> 0 < w \<and>
      cycle a h (routeRestarted_handler s) = (None, s', ev) \<and>
      act_fetchTrafficConditions h (origin a) (destination a) = Inr t \<and>
      delayMinutes t = w \<longrightarrow>
        Escalation \<in> set (sent_kinds ev)) \<and>
     (highestNotifiedDelayMinutes s = w \<and> 0 < w \<and>
      (Handled RouteRestarted \<in> set (snd (snooze_wait h s)) \<or>
       RouteRestarted \<in> set (sig_fetch h)) \<and>
      cycle a h s = (None, s', ev) \<and>
      act_fetchTrafficConditions h (origin a) (destination a) = Inr t \<and>
      delayMinutes t = w \<longrightarrow>
        Escalation \<in> set (sent_kinds ev)) \<and>
     (turn_until_sleep a h1 s = (None, s3, ev3) \<and>
      highestNotifiedDelayMinutes s3 = w \<and> 0 < w \<and>
      Handled RouteRestarted \<in> set (snd (sleep baseMs (sig_base_sleep h1) s3)) \<and>
      cycle a h (fst (snd (cycle a h1 s))) = (None, s', ev) \<and>
      act_fetchTrafficConditions h (origin a) (destination a) = Inr t \<and>
      delayMinutes t = w \<longrightarrow>
        Escalation \<in> set (sent_kinds ev)) \<and>
     (highestNotifiedDelayMinutes s = w \<and> 0 < w \<and>
      cycle a h1 s = (None, s1, ev1) \<and> AllClear \<in> set (sent_kinds ev1) \<and>
      cycle a h s1 = (None, s', ev) \<and>
      act_fetchTrafficConditions h (origin a) (destination a) = Inr t \<and>
      delayMinutes t = w \<longrightarrow>
        Escalation \<in> set (sent_kinds ev))"
proof -
  from reach have ok: "watermark_ok a s"
    unfolding monitorDeliveryWorkflow_def
    by (rule run_watermark_ok) (rule initial_watermark_ok)
  have top: "Escalation \<in> set (sent_kinds ev)"
    if w: "highestNotifiedDelayMinutes s = w" "0 < w"
      and c: "cycle a h (routeRestarted_handler s) = (None, s', ev)"
      and t: "act_fetchTrafficConditions h (origin a) (destination a) = Inr t"
      and d: "delayMinutes t = w"
  proof -
    from watermark_passes_gate [OF ok w] d
    have "thresholdMinutes a \<le> delayMinutes t" "notifyDeltaMinutes a \<le> delayMinutes t"
      by simp_all
    from cycle_gate_zero [OF _ c t this] show ?thesis
      by (simp add: routeRestarted_handler_def)
  qed
  have early: "Escalation \<in> set (sent_kinds ev)"
    if w: "highestNotifiedDelayMinutes s = w" "0 < w"
      and r: "Handled RouteRestarted \<in> set (snd (snooze_wait h s)) \<or>
              RouteRestarted \<in> set (sig_fetch h)"
      and c: "cycle a h s = (None, s', ev)"
      and t: "act_fetchTrafficConditions h (origin a) (destination a) = Inr t"
      and d: "delayMinutes t = w"
  proof -
    from watermark_passes_gate [OF ok w] d
    have "thresholdMinutes a \<le> delayMinutes t" "notifyDeltaMinutes a \<le> delayMinutes t"
      by simp_all
    from cycle_gate_zero [OF _ c t this] r show ?thesis by simp
  qed
  have sleeping: "Escalation \<in> set (sent_kinds ev)"
    if b: "turn_until_sleep a h1 s = (None, s3, ev3)"
      and w: "highestNotifiedDelayMinutes s3 = w" "0 < w"
      and r: "Handled RouteRestarted \<in> set (snd (sleep baseMs (sig_base_sleep h1) s3))"
      and c: "cycle a h (fst (snd (cycle a h1 s))) = (None, s', ev)"
      and t: "act_fetchTrafficConditions h (origin a) (destination a) = Inr t"
      and d: "delayMinutes t = w"
  proof -
    from turn_until_sleep_watermark_ok [OF b ok] have "watermark_ok a s3" .
    from watermark_passes_gate [OF this w] d
    have "thresholdMinutes a \<le> delayMinutes t" "notifyDeltaMinutes a \<le> delayMinutes t"
      by simp_all
    from cycle_gate_zero [OF _ c t this] restart_in_base_sleep [OF b r] show ?thesis by simp
  qed
  have cleared: "Escalation \<in> set (sent_kinds ev)"
    if w: "highestNotifiedDelayMinutes s = w" "0 < w"
      and c1: "cycle a h1 s = (None, s1, ev1)" and k: "AllClear \<in> set (sent_kinds ev1)"
      and c: "cycle a h s1 = (None, s', ev)"
      and t: "act_fetchTrafficConditions h (origin a) (destination a) = Inr t"
      and d: "delayMinutes t = w"
  proof -
    from watermark_passes_gate [OF ok w] d
    have "thresholdMinutes a \<le> delayMinutes t" "notifyDeltaMinutes a \<le> delayMinutes t"
      by simp_all
    from cycle_gate_zero [OF _ c t this] cycle_after_all_clear [OF c1 k] show ?thesis by simp
  qed
  from top early sleeping cleared show ?thesis by blast
qed

theorem old_watermark_retriggers_witness:
  "monitorDeliveryWorkflow demo_args [quiet_host 35]
     = (None, notified_state, snd (snd (monitorDeliveryWorkflow demo_args [quiet_host 35]))) \<and>
   highestNotifiedDelayMinutes notified_state = 35 \<and>
   fst (cycle demo_args (quiet_host 35) (routeRestarted_handler notified_state)) = None \<and>
   Escalation \<in> set (sent_kinds (snd (snd
     (cycle demo_args (quiet_host 35) (routeRestarted_handler notified_state))))) \<and>
   RouteRestarted \<in> set (sig_fetch (restart_in_fetch_host 35)) \<and>
   fst (cycle demo_args (restart_in_fetch_host 35) notified_state) = None \<and>
   Escalation \<in> set (sent_kinds (snd (snd
     (cycle demo_args (restart_in_fetch_host 35) notified_state)))) \<and>
   fst (turn_until_sleep demo_args (restart_in_sleep_host 38) notified_state) = None \<and>
   highestNotifiedDelayMinutes
     (fst (snd (turn_until_sleep demo_args (restart_in_sleep_host 38) notified_state))) = 35 \<and>
   Handled RouteRestarted \<in> set (snd (sleep baseMs (sig_base_sleep (restart_in_sleep_host 38))
     (fst (snd (turn_until_sleep demo_args (restart_in_sleep_host 38) notified_state))))) \<and>
   fst (cycle demo_args (quiet_host 35)
     (fst (snd (cycle demo_args (restart_in_sleep_host 38) notified_state)))) = None \<and>
   Escalation \<in> set (sent_kinds (snd (snd (cycle demo_args (quiet_host 35)
     (fst (snd (cycle demo_args (restart_in_sleep_host 38) notified_state))))))) \<and>
   fst (cycle demo_args (restart_in_clear_host 20) notified_state) = None \<and>
   AllClear \<in> set (sent_kinds (snd (snd
     (cycle demo_args (restart_in_clear_host 20) notified_state)))) \<and>
   fst (cycle demo_args (quiet_host 35)
     (fst (snd (cycle demo_args (restart_in_clear_host 20) notified_state)))) = None \<and>
   Escalation \<in> set (sent_kinds (snd (snd (cycle demo_args (quiet_host 35)
     (fst (snd (cycle demo_args (restart_in_clear_host 20) notified_state)))))))"
proof -
  let ?m = "monitorDeliveryWorkflow demo_args [quiet_host 35]"
  let ?ct = "cycle demo_args (quiet_host 35) (routeRestarted_handler notified_state)"
  let ?cf = "cycle demo_args (restart_in_fetch_host 35) notified_state"
  let ?b = "turn_until_sleep demo_args (restart_in_sleep_host 38) notified_state"
  let ?cs = "cycle demo_args (restart_in_sleep_host 38) notified_state"
  let ?c2 = "cycle demo_args (quiet_host 35) (fst (snd ?cs))"
  let ?cc = "cycle demo_args (restart_in_clear_host 20) notified_state"
  let ?c3 = "cycle demo_args (quiet_host 35) (fst (snd ?cc))"
  let ?t = "\<lparr>plannedSeconds = 3600, inTrafficSeconds = 5700, delayMinutes = 35\<rparr>"
  note ev = notified_state_eq turn_defs example_defs after_signals_def routeRestarted_handler_def
  have m: "?m = (None, notified_state, snd (snd ?m))"
    unfolding notified_state_def
    by (rule prod_eqI) (simp_all add: turn_defs example_defs)
  note T = old_watermark_retriggers [OF m]
  have w: "highestNotifiedDelayMinutes notified_state = 35" "(0::int) < 35"
    by (simp_all add: notified_state_eq)
  have t: "act_fetchTrafficConditions (quiet_host 35) (origin demo_args) (destination demo_args)
             = Inr ?t"
    "act_fetchTrafficConditions (restart_in_fetch_host 35) (origin demo_args)
       (destination demo_args) = Inr ?t"
    "delayMinutes ?t = 35"
    by (simp_all add: restart_in_fetch_host_def quiet_host_def)
  have p: "fst ?ct = None"
    by (simp add: ev)
  from T [where w = 35 and h = "quiet_host 35" and s' = "fst (snd ?ct)"
      and ev = "snd (snd ?ct)" and t = ?t]
    w result_collapse [OF p] t(1,3)
  have w1: "Escalation \<in> set (sent_kinds (snd (snd ?ct)))" by blast
  have f: "fst ?cf = None"
    by (simp add: ev)
  have fr: "RouteRestarted \<in> set (sig_fetch (restart_in_fetch_host 35))"
    by (simp add: restart_in_fetch_host_def quiet_host_def)
  from T [where w = 35 and h = "restart_in_fetch_host 35" and s' = "fst (snd ?cf)"
      and ev = "snd (snd ?cf)" and t = ?t]
    w fr result_collapse [OF f] t(2,3)
  have w2: "Escalation \<in> set (sent_kinds (snd (snd ?cf)))" by blast
  have b: "fst ?b = None"
    by (simp add: turn_until_sleep_def ev)
  have bw: "highestNotifiedDelayMinutes (fst (snd ?b)) = 35"
    by (simp add: turn_until_sleep_def ev)
  have br: "Handled RouteRestarted \<in> set (snd (sleep baseMs
              (sig_base_sleep (restart_in_sleep_host 38)) (fst (snd ?b))))"
    by (simp add: turn_until_sleep_def ev)
  have c2: "fst ?c2 = None"
    by (simp add: ev)
  from T [where w = 35 and ?h1.0 = "restart_in_sleep_host 38" and ?s3.0 = "fst (snd ?b)"
      and ?ev3.0 = "snd (snd ?b)" and h = "quiet_host 35" and s' = "fst (snd ?c2)"
      and ev = "snd (snd ?c2)" and t = ?t]
    result_collapse [OF b] bw w(2) br result_collapse [OF c2] t(1,3)
  have w3: "Escalation \<in> set (sent_kinds (snd (snd ?c2)))" by blast
  have c: "fst ?cc = None"
    by (simp add: ev)
  have ck: "AllClear \<in> set (sent_kinds (snd (snd ?cc)))"
    by (simp add: ev)
  have c3: "fst ?c3 = None"
    by (simp add: ev)
  from T [where w = 35 and ?h1.0 = "restart_in_clear_host 20" and ?s1.0 = "fst (snd ?cc)"
      and ?ev1.0 = "snd (snd ?cc)" and h = "quiet_host 35" and s' = "fst (snd ?c3)"
      and ev = "snd (snd ?c3)" and t = ?t]
    w result_collapse [OF c] ck result_collapse [OF c3] t(1,3)
  have w4: "Escalation \<in> set (sent_kinds (snd (snd ?c3)))" by blast
  from m w(1) p w1 fr f w2 b bw br c2 w3 c ck c3 w4 show ?thesis by blast
qed

section \<open>Idempotency keys\<close>

lemma cycle_keys:
  assumes "cycle a h s = (None, s', ev)"
  shows "sent_keys ev =
           map (\<lambda>n. deliveryId a @ ''-'' @ string_of_nat n)
             [Suc (notificationSequence s) ..< Suc (notificationSequence s')] \<and>
         notificationSequence s' = notificationSequence s + length (sent_keys ev)"
  using cycle_sends [OF assms] by auto

lemma run_keys:
  "run a hs s = (r, s', ev) \<Longrightarrow>
   sent_keys ev =
     map (\<lambda>n. deliveryId a @ ''-'' @ string_of_nat n)
       [Suc (notificationSequence s) ..< Suc (notificationSequence s + length (sent_keys ev))]"
proof (induction hs arbitrary: s r s' ev)
  case Nil
  then show ?case by simp
next
  case (Cons h hs)
  let ?key = "\<lambda>n. deliveryId a @ ''-'' @ string_of_nat n"
  obtain r1 s1 ev1 where c: "cycle a h s = (r1, s1, ev1)"
    by (cases "cycle a h s") auto
  show ?case
  proof (cases r1)
    case (Some e)
    with cycle_failed [of a h s e s1 ev1] c Cons.prems show ?thesis by simp
  next
    case None
    obtain r2 s2 ev2 where r: "run a hs s1 = (r2, s2, ev2)"
      by (cases "run a hs s1") auto
    from cycle_keys [OF c [unfolded None]]
    have k1: "sent_keys ev1 = map ?key [Suc (notificationSequence s) ..< Suc (notificationSequence s1)]"
      and n1: "notificationSequence s1 = notificationSequence s + length (sent_keys ev1)"
      by blast+
    from Cons.IH [OF r]
    have k2: "sent_keys ev2 =
                map ?key [Suc (notificationSequence s1) ..<
                          Suc (notificationSequence s1 + length (sent_keys ev2))]" .
    from Cons.prems c None r have ev: "ev = ev1 @ ev2" by simp
    have "[Suc (notificationSequence s) ..<
           Suc (notificationSequence s + (length (sent_keys ev1) + length (sent_keys ev2)))]
          = [Suc (notificationSequence s) ..< Suc (notificationSequence s1)] @
            [Suc (notificationSequence s1) ..<
             Suc (notificationSequence s1 + length (sent_keys ev2))]"
      unfolding n1
      by (metis add.assoc add_Suc le_add1 upt_add_eq_append)
    then show ?thesis
      unfolding ev using k1 k2 by (simp del: upt_Suc)
  qed
qed

text \<open>
  Claim C8. In every run of the workflow from its initial state, whatever the signals
  and the failures, the key of the \<open>n\<close>-th notification dispatched is the delivery id,
  a hyphen and the decimal digits of \<open>n\<close>, counting from 1; so the numbers in the keys
  increase by one from each notification to the next, and the keys are pairwise
  distinct. No turn and no signal handler decreases \<open>notificationSequence\<close>, and the
  keys a completed turn sends carry the values of the counter after the increment:
  those above its value at the start of the turn, up to its value at the end.
\<close>

theorem idempotency_keys:
  "(monitorDeliveryWorkflow a hs = (r, s', ev) \<longrightarrow>
      sent_keys ev =
        map (\<lambda>n. deliveryId a @ ''-'' @ string_of_nat n) [1 ..< Suc (length (sent_keys ev))] \<and>
      distinct (sent_keys ev)) \<and>
   (cycle a h s0 = (r0, s1, ev1) \<longrightarrow> notificationSequence s0 \<le> notificationSequence s1) \<and>
   (cycle a h s0 = (None, s1, ev1) \<longrightarrow>
      sent_keys ev1 =
        map (\<lambda>n. deliveryId a @ ''-'' @ string_of_nat n)
          [Suc (notificationSequence s0) ..< Suc (notificationSequence s1)]) \<and>
   notificationSequence (handle_signal g s0) = notificationSequence s0"
proof -
  let ?key = "\<lambda>n. deliveryId a @ ''-'' @ string_of_nat n"
  have run: "sent_keys ev = map ?key [1 ..< Suc (length (sent_keys ev))] \<and>
             distinct (sent_keys ev)"
    if m: "monitorDeliveryWorkflow a hs = (r, s', ev)"
  proof -
    from m have "run a hs initial_state = (r, s', ev)"
      by (simp add: monitorDeliveryWorkflow_def)
    from run_keys [OF this]
    have k: "sent_keys ev = map ?key [1 ..< Suc (length (sent_keys ev))]"
      by (simp add: initial_state_def)
    have "inj ?key"
      by (auto intro!: injI dest: string_of_nat_inj)
    then have "distinct (map ?key [1 ..< Suc (length (sent_keys ev))])"
      by (simp add: distinct_map inj_on_def del: upt_Suc)
    with k show ?thesis by metis
  qed
  have mono: "notificationSequence s0 \<le> notificationSequence s1"
    if "cycle a h s0 = (r0, s1, ev1)"
    using cycle_sends [OF that] by auto
  have one: "sent_keys ev1 = map ?key [Suc (notificationSequence s0) ..< Suc (notificationSequence s1)]"
    if "cycle a h s0 = (None, s1, ev1)"
    using cycle_keys [OF that] by blast
  from run mono one show ?thesis
    by (simp only: handle_signal_seq) blast
qed

theorem idempotency_keys_witness:
  "fst (monitorDeliveryWorkflow demo_args (map quiet_host [35, 38, 50, 20])) = None \<and>
   sent_keys (snd (snd (monitorDeliveryWorkflow demo_args (map quiet_host [35, 38, 50, 20]))))
     = [''demo-1'', ''demo-2'', ''demo-3''] \<and>
   distinct (sent_keys (snd (snd
     (monitorDeliveryWorkflow demo_args (map quiet_host [35, 38, 50, 20]))))) \<and>
   notificationSequence initial_state
     \<le> notificationSequence (fst (snd (cycle demo_args (quiet_host 35) initial_state))) \<and>
   fst (cycle demo_args (quiet_host 35) initial_state) = None \<and>
   sent_keys (snd (snd (cycle demo_args (quiet_host 35) initial_state))) = [''demo-1'']"
proof -
  let ?m = "monitorDeliveryWorkflow demo_args (map quiet_host [35, 38, 50, 20])"
  let ?c = "cycle demo_args (quiet_host 35) initial_state"
  have m: "?m = (fst ?m, fst (snd ?m), snd (snd ?m))" by simp
  have len: "length (sent_keys (snd (snd ?m))) = 3"
    by (simp add: turn_defs example_defs)
  have r: "fst ?m = None"
    by (simp add: turn_defs example_defs)
  have n: "fst ?c = None"
    by (simp add: turn_defs example_defs)
  have s1: "notificationSequence (fst (snd ?c)) = 1"
    by (simp add: turn_defs example_defs)
  have up: "[1 ..< Suc 3] = [1, 2, 3]" "[Suc 0 ..< Suc 1] = [1]"
    by (simp_all add: upt_rec)
  have str: "string_of_nat (Suc 0) = ''1''" "string_of_nat 2 = ''2''" "string_of_nat 3 = ''3''"
    by (simp_all add: string_of_nat.simps digit_char_def)
  have d: "deliveryId demo_args = ''demo''" "notificationSequence initial_state = 0"
    by (simp_all add: demo_args_def initial_state_def)
  from idempotency_keys [of demo_args "map quiet_host [35, 38, 50, 20]" "fst ?m" "fst (snd ?m)"
      "snd (snd ?m)" "quiet_host 35" initial_state None "fst (snd ?c)" "snd (snd ?c)"]
    m cycle_collapse [OF n]
  have "sent_keys (snd (snd ?m)) =
          map (\<lambda>n. deliveryId demo_args @ ''-'' @ string_of_nat n)
            [1 ..< Suc (length (sent_keys (snd (snd ?m))))]"
    "distinct (sent_keys (snd (snd ?m)))"
    "notificationSequence initial_state \<le> notificationSequence (fst (snd ?c))"
    "sent_keys (snd (snd ?c)) =
       map (\<lambda>n. deliveryId demo_args @ ''-'' @ string_of_nat n)
         [Suc (notificationSequence initial_state) ..< Suc (notificationSequence (fst (snd ?c)))]"
    by blast+
  then show ?thesis
    unfolding len s1 d up using r n by (simp add: str)
qed

section \<open>Scenarios\<close>

text \<open>
  Claim C9. With a threshold of 30 and a delta of 10, any delivery id, addresses and
  recipient, no signals, and the delays 35, 38, 50 and 20 fetched in four turns that
  start from the initial state, the workflow does exactly this: it sends an escalation
  after fetching 35, with key number 1; nothing after fetching 38; an escalation after
  fetching 50, with key number 2; an all-clear after fetching 20, with key number 3.
  (The message activity is the repository's own, in mock mode.)
\<close>

theorem scenario_A:
  "monitorDeliveryWorkflow (a\<lparr>thresholdMinutes := 30, notifyDeltaMinutes := 10\<rparr>)
     (map quiet_host [35, 38, 50, 20]) =
   (None,
    \<lparr>highestNotifiedDelayMinutes = 0, notificationSequence = 3,
     hasNotifiedOverThreshold = False, snoozeSleepMs = None, shouldCheckNow = False\<rparr>,
    [Fetched (origin a) (destination a) 35,
     Sent Escalation (recipientEmail a) (''Delay update for delivery '' @ deliveryId a)
       (fallback \<lparr>ctx_origin = origin a, ctx_destination = destination a,
                  ctx_delayMinutes = 35\<rparr>)
       (deliveryId a @ ''-1''),
     Waited 1800000,
     Fetched (origin a) (destination a) 38,
     Waited 1800000,
     Fetched (origin a) (destination a) 50,
     Sent Escalation (recipientEmail a) (''Delay update for delivery '' @ deliveryId a)
       (fallback \<lparr>ctx_origin = origin a, ctx_destination = destination a,
                  ctx_delayMinutes = 50\<rparr>)
       (deliveryId a @ ''-2''),
     Waited 1800000,
     Fetched (origin a) (destination a) 20,
     Sent AllClear (recipientEmail a)
       (''Update for delivery '' @ deliveryId a @ '': back on track'')
       (''Good news! Traffic has improved and your delivery from '' @ origin a @ '' to ''
        @ destination a @ '' is back on track. We'll keep monitoring.'')
       (deliveryId a @ ''-3''),
     Waited 1800000])"
  by (simp add: turn_defs example_defs string_of_nat.simps digit_char_def)

lemma check_now_skips_snooze_sleep: "shouldCheckNow s \<Longrightarrow> snooze_wait h s = (s, [])"
  by (simp add: snooze_wait_def split: option.splits)

text \<open>
  Claim C3 does not hold of the code. The first turn fetches, finds no delay and starts
  the base sleep of line 150. One minute into it \<^verbatim>\<open>snooze(5)\<close> and then \<^verbatim>\<open>checkNow()\<close>
  arrive. The handlers run, but the sleep goes on: the remaining 29 minutes pass
  before the second turn fetches. The flag has made the second turn skip the snooze
  sleep of lines 111 to 115, and with it the reset of \<open>snoozeSleepMs\<close>: after the
  second turn the five minutes are still pending.
\<close>

theorem check_now_waits_for_base_sleep:
  "monitorDeliveryWorkflow demo_args [check_now_host, quiet_host 0] =
   (None,
    \<lparr>highestNotifiedDelayMinutes = 0, notificationSequence = 0,
     hasNotifiedOverThreshold = False, snoozeSleepMs = Some 300000, shouldCheckNow = False\<rparr>,
    [Fetched ''San Francisco, CA'' ''Oakland, CA'' 0,
     Waited 60000, Handled (Snooze 5), Waited 0, Handled CheckNow, Waited 1740000,
     Fetched ''San Francisco, CA'' ''Oakland, CA'' 0,
     Waited 1800000])"
  by (simp add: turn_defs example_defs snooze_handler_def checkNow_handler_def)

section \<open>The message activity always answers\<close>

lemma fallback_nonempty: "fallback context \<noteq> []"
  by (simp add: fallback_def)

lemma request_completion_nonempty: "request_completion fetched = Inr text \<Longrightarrow> text \<noteq> []"
  by (auto simp: request_completion_def split: sum.splits if_splits option.splits)

text \<open>
  Claim C10. For every environment, every context and every outcome of the call to
  the provider, \<^verbatim>\<open>generateDelayMessage\<close> returns a string, and the string is not empty.
  It returns the static template when mock mode is on, when the API key is unset or
  empty, when \<^verbatim>\<open>fetch\<close> rejects, when the response is not \<^verbatim>\<open>ok\<close>, when
  \<^verbatim>\<open>res.json()\<close> rejects, when reading the completion throws, and when the completion
  is missing or empty once trimmed.
\<close>

theorem generateDelayMessage_never_fails:
  "(\<exists>text. generateDelayMessage env fetched context = Inr text \<and> text \<noteq> []) \<and>
   (USE_MOCK_AI env = Some ''true'' \<longrightarrow>
      generateDelayMessage env fetched context = Inr (fallback context)) \<and>
   (no_key (OPENAI_API_KEY env) \<longrightarrow>
      generateDelayMessage env fetched context = Inr (fallback context)) \<and>
   (fetched = Inl e \<longrightarrow>
      generateDelayMessage env fetched context = Inr (fallback context)) \<and>
   (fetched = Inr res \<and> \<not> res_ok res \<longrightarrow>
      generateDelayMessage env fetched context = Inr (fallback context)) \<and>
   (fetched = Inr res \<and> res_json res = Inl e \<longrightarrow>
      generateDelayMessage env fetched context = Inr (fallback context)) \<and>
   (fetched = Inr res \<and> res_json res = Inr j \<and> completion_text j = Inl e \<longrightarrow>
      generateDelayMessage env fetched context = Inr (fallback context)) \<and>
   (fetched = Inr res \<and> res_json res = Inr j \<and>
    (completion_text j = Inr None \<or> completion_text j = Inr (Some [])) \<longrightarrow>
      generateDelayMessage env fetched context = Inr (fallback context))"
proof -
  have total: "\<exists>text. generateDelayMessage env fetched context = Inr text \<and> text \<noteq> []"
    by (auto simp: generateDelayMessage_def Let_def fallback_nonempty
        request_completion_nonempty split: sum.splits)
  have fb: "generateDelayMessage env fetched context = Inr (fallback context)"
    if "request_completion fetched = Inl e'" for e'
    using that by (simp add: generateDelayMessage_def Let_def)
  have mock: "generateDelayMessage env fetched context = Inr (fallback context)"
    if "USE_MOCK_AI env = Some ''true''"
    using that by (simp add: generateDelayMessage_def Let_def)
  have key: "generateDelayMessage env fetched context = Inr (fallback context)"
    if "no_key (OPENAI_API_KEY env)"
    using that by (simp add: generateDelayMessage_def Let_def)
  have thrown: "generateDelayMessage env fetched context = Inr (fallback context)"
    if "fetched = Inl e"
    using that by (intro fb [of e]) (simp add: request_completion_def)
  have http: "generateDelayMessage env fetched context = Inr (fallback context)"
    if "fetched = Inr res" "\<not> res_ok res"
    using that
    by (intro fb [of "Error (''OpenAI HTTP '' @ string_of_nat (res_status res))"])
       (simp add: request_completion_def)
  have parse: "generateDelayMessage env fetched context = Inr (fallback context)"
    if "fetched = Inr res" "res_json res = Inl e"
  proof -
    from that have "\<exists>e'. request_completion fetched = Inl e'"
      by (auto simp: request_completion_def)
    then show ?thesis using fb by blast
  qed
  have chain: "generateDelayMessage env fetched context = Inr (fallback context)"
    if "fetched = Inr res" "res_json res = Inr j" "completion_text j = Inl e"
  proof -
    from that have "\<exists>e'. request_completion fetched = Inl e'"
      by (auto simp: request_completion_def)
    then show ?thesis using fb by blast
  qed
  have empty: "generateDelayMessage env fetched context = Inr (fallback context)"
    if "fetched = Inr res" "res_json res = Inr j"
      "completion_text j = Inr None \<or> completion_text j = Inr (Some [])"
  proof -
    from that have "\<exists>e'. request_completion fetched = Inl e'"
      by (auto simp: request_completion_def)
    then show ?thesis using fb by blast
  qed
  from total mock key thrown http parse chain empty show ?thesis by blast
qed

theorem generateDelayMessage_never_fails_witness:
  "generateDelayMessage mock_env (Inr (completion_of (JString ''Running late''))) demo_context
     = Inr (fallback demo_context) \<and>
   generateDelayMessage (live_env\<lparr>OPENAI_API_KEY := Some ''''\<rparr>)
       (Inr (completion_of (JString ''Running late''))) demo_context
     = Inr (fallback demo_context) \<and>
   generateDelayMessage live_env (Inl (TypeError ''fetch failed'')) demo_context
     = Inr (fallback demo_context) \<and>
   generateDelayMessage live_env (Inr http_500) demo_context = Inr (fallback demo_context) \<and>
   generateDelayMessage live_env
       (Inr ((completion_of JNull)\<lparr>res_json := Inl (Error ''Unexpected token'')\<rparr>)) demo_context
     = Inr (fallback demo_context) \<and>
   generateDelayMessage live_env (Inr (completion_of (JNumber 7))) demo_context
     = Inr (fallback demo_context) \<and>
   generateDelayMessage live_env (Inr (completion_of (JString ''   ''))) demo_context
     = Inr (fallback demo_context) \<and>
   generateDelayMessage live_env (Inr (completion_of (JString '' Running late ''))) demo_context
     = Inr ''Running late'' \<and>
   fallback demo_context
     = ''Heads up! Your delivery from San Francisco, CA to Oakland, CA is delayed by about 35 minutes due to traffic. We'll keep you posted.''"
proof -
  note T = generateDelayMessage_never_fails
  have chain: "completion_text (JObject [(''choices'',
                   JArray [JObject [(''message'', JObject [(''content'', c)])]])])
               = (case c of JNull \<Rightarrow> Inr None | JString cs \<Rightarrow> Inr (Some (trim cs))
                  | _ \<Rightarrow> Inl (TypeError ''trim is not a function''))" for c
    by (cases c) (simp_all add: completion_text_def)
  have 1: "generateDelayMessage mock_env (Inr (completion_of (JString ''Running late'')))
             demo_context = Inr (fallback demo_context)"
    using T [of mock_env] by (simp add: mock_env_def)
  have 2: "generateDelayMessage (live_env\<lparr>OPENAI_API_KEY := Some ''''\<rparr>)
             (Inr (completion_of (JString ''Running late''))) demo_context
           = Inr (fallback demo_context)"
    using T [of "live_env\<lparr>OPENAI_API_KEY := Some ''''\<rparr>"] by (simp add: no_key_def)
  have 3: "generateDelayMessage live_env (Inl (TypeError ''fetch failed'')) demo_context
           = Inr (fallback demo_context)"
    using T [of live_env "Inl (TypeError ''fetch failed'')" demo_context "TypeError ''fetch failed''"]
    by simp
  have 4: "generateDelayMessage live_env (Inr http_500) demo_context = Inr (fallback demo_context)"
    using T [of live_env "Inr http_500" demo_context _ http_500] by (simp add: http_500_def)
  have 5: "generateDelayMessage live_env
             (Inr ((completion_of JNull)\<lparr>res_json := Inl (Error ''Unexpected token'')\<rparr>))
             demo_context = Inr (fallback demo_context)"
    using T [of live_env
        "Inr ((completion_of JNull)\<lparr>res_json := Inl (Error ''Unexpected token'')\<rparr>)"
        demo_context "Error ''Unexpected token''"
        "(completion_of JNull)\<lparr>res_json := Inl (Error ''Unexpected token'')\<rparr>"]
    by simp
  have 6: "generateDelayMessage live_env (Inr (completion_of (JNumber 7))) demo_context
           = Inr (fallback demo_context)"
    using T [of live_env "Inr (completion_of (JNumber 7))" demo_context
        "TypeError ''trim is not a function''" "completion_of (JNumber 7)"
        "JObject [(''choices'',
           JArray [JObject [(''message'', JObject [(''content'', JNumber 7)])]])]"]
    by (simp add: completion_of_def chain)
  have 7: "generateDelayMessage live_env (Inr (completion_of (JString ''   ''))) demo_context
           = Inr (fallback demo_context)"
    using T [of live_env "Inr (completion_of (JString ''   ''))" demo_context
        _ "completion_of (JString ''   '')"
        "JObject [(''choices'',
           JArray [JObject [(''message'', JObject [(''content'', JString ''   '')])]])]"]
    by (simp add: completion_of_def chain trim_def js_whitespace_def strip_start.simps)
  have 8: "generateDelayMessage live_env (Inr (completion_of (JString '' Running late '')))
             demo_context = Inr ''Running late''"
    by (simp add: generateDelayMessage_def request_completion_def live_env_def no_key_def
        completion_of_def chain trim_def js_whitespace_def strip_start.simps)
  have 9: "fallback demo_context
     = ''Heads up! Your delivery from San Francisco, CA to Oakland, CA is delayed by about 35 minutes due to traffic. We'll keep you posted.''"
    by (simp add: fallback_def demo_context_def string_of_int_def string_of_nat.simps
        digit_char_def)
  from 1 2 3 4 5 6 7 8 9 show ?thesis by blast
qed

end
